theory Spec2Isabelle
  imports Main "HOL-Library.Word"
begin

unbundle bit_operations_syntax

section \<open>Values, errors and the world the code runs in\<close>

text \<open>
  A \<^verbatim>\<open>Uint8Array\<close> is an object: the code wipes buffers in place (\<^verbatim>\<open>zeroize\<close>,
  \<^verbatim>\<open>fill(0)\<close>) and hands the same object to several holders, so every \<^verbatim>\<open>Uint8Array\<close>
  lives in a store and is known by its reference. The store never forgets a buffer: what a
  local variable held when a function was left can still be read afterwards.
\<close>

type_synonym byte = "8 word"
type_synonym bytes = "byte list"
type_synonym ref = nat

text \<open>
  The JavaScript throws plain \<^verbatim>\<open>Error\<close> objects (and WebCrypto rejects with its own
  exceptions). They are told apart by where they are thrown:
  \<^item> \<open>ValidationError\<close>: \<^verbatim>\<open>"Invalid random length"\<close>, \<^verbatim>\<open>"Password must be a non-empty string"\<close>;
  \<^item> \<open>FormatError\<close>: \<^verbatim>\<open>"Invalid vault file"\<close>;
  \<^item> \<open>DerivationError\<close>: \<^verbatim>\<open>"Failed to load Argon2 WASM"\<close>, \<^verbatim>\<open>"Argon2id derivation failed"\<close>;
  \<^item> \<open>AuthenticationError\<close>: the rejection of \<^verbatim>\<open>crypto.subtle.decrypt\<close>.
\<close>

datatype error = ValidationError | FormatError | DerivationError | AuthenticationError

text \<open>What a caller may pass where a password is expected (\<^verbatim>\<open>typeof password\<close> is tested).\<close>

datatype js_value = JSUndefined | JSNull | JSBoolean bool | JSNumber int | JSString string

text \<open>
  The state outside the functions:
  \<^item> \<open>bufs\<close>, \<open>next_ref\<close>: the \<^verbatim>\<open>Uint8Array\<close> objects and the next unused reference;
  \<^item> \<open>csprng\<close>: the bytes \<^verbatim>\<open>crypto.getRandomValues\<close> is going to deliver, in order;
  \<^item> \<open>HEAPU8\<close>, \<open>heap_brk\<close>: the linear memory of the Argon2 module and its allocator's
    break;
  \<^item> \<open>argon2Instance\<close>: whether the module-level \<^verbatim>\<open>_argon2Instance\<close> is set.
\<close>

record world =
  bufs :: "ref \<Rightarrow> bytes"
  next_ref :: ref
  csprng :: "nat \<Rightarrow> byte"
  HEAPU8 :: "nat \<Rightarrow> byte"
  heap_brk :: nat
  argon2Instance :: bool

text \<open>
  The collaborators that are not part of the repository, taken as parameters:
  \<^item> \<open>subtle_deriveBits hash password salt iterations bits\<close>: PBKDF2 of \<^verbatim>\<open>crypto.subtle\<close>;
  \<^item> \<open>subtle_encrypt name key iv data\<close> and \<open>subtle_decrypt name key iv data\<close>: the cipher of
    \<^verbatim>\<open>crypto.subtle\<close> under the algorithm \<open>name\<close>; \<open>None\<close> is a rejected promise;
  \<^item> \<open>fetch_ok path\<close>: \<^verbatim>\<open>response.ok\<close> of \<^verbatim>\<open>fetch(path)\<close>;
  \<^item> \<open>argon2id_hash_raw t m p pwd salt hashlen\<close>: the status the native function returns and
    the bytes it writes at its output pointer.
\<close>

record collaborators =
  subtle_deriveBits :: "string \<Rightarrow> bytes \<Rightarrow> bytes \<Rightarrow> nat \<Rightarrow> nat \<Rightarrow> bytes"
  subtle_encrypt :: "string \<Rightarrow> bytes \<Rightarrow> bytes \<Rightarrow> bytes \<Rightarrow> bytes"
  subtle_decrypt :: "string \<Rightarrow> bytes \<Rightarrow> bytes \<Rightarrow> bytes \<Rightarrow> bytes option"
  fetch_ok :: "string \<Rightarrow> bool"
  argon2id_hash_raw :: "nat \<Rightarrow> nat \<Rightarrow> nat \<Rightarrow> bytes \<Rightarrow> bytes \<Rightarrow> nat \<Rightarrow> int \<times> bytes"

text \<open>\<^verbatim>\<open>new Uint8Array(...)\<close>: a new object with the given content.\<close>

definition alloc :: "bytes \<Rightarrow> world \<Rightarrow> ref \<times> world" where
  "alloc bs w = (next_ref w, w\<lparr>bufs := (bufs w)(next_ref w := bs), next_ref := Suc (next_ref w)\<rparr>)"

text \<open>\<^verbatim>\<open>new TextEncoder().encode(str)\<close>; a \<open>string\<close> stands for the text by its UTF-8 bytes.\<close>

definition TextEncoder_encode :: "string \<Rightarrow> bytes" where
  "TextEncoder_encode str = map of_char str"

text \<open>\<^verbatim>\<open>crypto.getRandomValues(buf)\<close>: fills the buffer from the generator's output.\<close>

definition getRandomValues :: "ref \<Rightarrow> world \<Rightarrow> world" where
  "getRandomValues buf w =
     (let n = length (bufs w buf)
      in w\<lparr>bufs := (bufs w)(buf := map (csprng w) [0..<n]),
            csprng := (\<lambda>i. csprng w (i + n))\<rparr>)"

text \<open>A parameter default \<^verbatim>\<open>name = value\<close>: taken when the caller passes nothing.\<close>

definition default :: "'a \<Rightarrow> 'a option \<Rightarrow> 'a" where
  "default d given = (case given of None \<Rightarrow> d | Some v \<Rightarrow> v)"

section \<open>secure-utils.js\<close>

text \<open>
  Every buffer of the world is a \<^verbatim>\<open>Uint8Array\<close>, so the \<^verbatim>\<open>instanceof\<close> tests of \<^verbatim>\<open>zeroize\<close>
  and \<^verbatim>\<open>constantTimeEqual\<close> pass; \<^verbatim>\<open>randomBytes\<close> is called with integers only.
\<close>

definition randomBytes :: "int \<Rightarrow> world \<Rightarrow> (error + ref) \<times> world" where
  "randomBytes len w =
     (if len \<le> 0 then (Inl ValidationError, w)
      else (let (buf, w1) = alloc (replicate (nat len) 0) w
            in (Inr buf, getRandomValues buf w1)))"

definition zeroize :: "ref \<Rightarrow> world \<Rightarrow> world" where
  "zeroize buffer w = w\<lparr>bufs := (bufs w)(buffer := replicate (length (bufs w buffer)) 0)\<rparr>"

definition constantTimeEqual :: "bytes \<Rightarrow> bytes \<Rightarrow> bool" where
  "constantTimeEqual a b =
     (if length a \<noteq> length b then False
      else fold (\<lambda>i diff. diff OR (a ! i XOR b ! i)) [0..<length a] 0 = 0)"

section \<open>argon2.wasm.js\<close>

definition secureRandom :: "nat \<Rightarrow> world \<Rightarrow> ref \<times> world" where
  "secureRandom len w =
     (let (buf, w1) = alloc (replicate len 0) w
      in (buf, getRandomValues buf w1))"

text \<open>
  \<^verbatim>\<open>loadArgon2Wasm(wasmPath)\<close>: the module kept in \<^verbatim>\<open>_argon2Instance\<close> if there is one;
  otherwise the file is fetched, which fails when the response is not ok, and the module is
  instantiated from it and kept.
\<close>

definition loadArgon2Wasm :: "collaborators \<Rightarrow> string option \<Rightarrow> world \<Rightarrow> (error + unit) \<times> world" where
  "loadArgon2Wasm C wasmPath w =
     (if argon2Instance w then (Inr (), w)
      else if \<not> fetch_ok C (default ''./argon2.wasm'' wasmPath)
      then (Inl DerivationError, w)
      else (Inr (), w\<lparr>argon2Instance := True\<rparr>))"

definition pbkdf2PreHash :: "collaborators \<Rightarrow> ref \<Rightarrow> ref \<Rightarrow> nat option \<Rightarrow> world \<Rightarrow> ref \<times> world" where
  "pbkdf2PreHash C passwordBytes saltBytes iterations w =
     (let bits = subtle_deriveBits C ''SHA-512'' (bufs w passwordBytes) (bufs w saltBytes)
                   (default 2000000 iterations) 256
      in alloc bits w)"

text \<open>
  The exports of the Argon2 module. The allocator is the module's own; it is taken to hand
  out consecutive blocks, so that blocks never overlap, and \<^verbatim>\<open>_free\<close> to leave the memory
  as it is.
\<close>

definition malloc :: "nat \<Rightarrow> world \<Rightarrow> nat \<times> world" where
  "malloc n w = (heap_brk w, w\<lparr>heap_brk := heap_brk w + n\<rparr>)"

definition free :: "nat \<Rightarrow> world \<Rightarrow> world" where
  "free ptr w = w"

definition HEAPU8_set :: "bytes \<Rightarrow> nat \<Rightarrow> world \<Rightarrow> world" where
  "HEAPU8_set src ptr w =
     w\<lparr>HEAPU8 := (\<lambda>a. if ptr \<le> a \<and> a < ptr + length src then src ! (a - ptr) else HEAPU8 w a)\<rparr>"

definition HEAPU8_fill :: "byte \<Rightarrow> nat \<Rightarrow> nat \<Rightarrow> world \<Rightarrow> world" where
  "HEAPU8_fill v start stop w =
     w\<lparr>HEAPU8 := (\<lambda>a. if start \<le> a \<and> a < stop then v else HEAPU8 w a)\<rparr>"

definition HEAPU8_slice :: "nat \<Rightarrow> nat \<Rightarrow> world \<Rightarrow> bytes" where
  "HEAPU8_slice start stop w = map (HEAPU8 w) [start..<stop]"

definition argon2id_hash_raw_call ::
  "collaborators \<Rightarrow> nat \<Rightarrow> nat \<Rightarrow> nat \<Rightarrow> nat \<Rightarrow> nat \<Rightarrow> nat \<Rightarrow> nat \<Rightarrow> nat \<Rightarrow> nat \<Rightarrow> world \<Rightarrow> int \<times> world" where
  "argon2id_hash_raw_call C t m p pwdPtr pwdLen saltPtr saltLen outPtr outLen w =
     (let (status, out) = argon2id_hash_raw C t m p
                            (HEAPU8_slice pwdPtr (pwdPtr + pwdLen) w)
                            (HEAPU8_slice saltPtr (saltPtr + saltLen) w) outLen
      in (status, HEAPU8_set out outPtr w))"

text \<open>
  The object \<^verbatim>\<open>deriveKey\<close> is called with: one field per property of the destructured
  parameter, \<open>None\<close> where the caller leaves the property out.
\<close>

record deriveKey_args =
  arg_password :: js_value
  arg_salt :: "ref option"
  arg_memoryMB :: "nat option"
  arg_iterations :: "nat option"
  arg_parallelism :: "nat option"
  arg_outputLength :: "nat option"
  arg_wasmPath :: "string option"

text \<open>
  The body of \<^verbatim>\<open>deriveKey\<close>, its parameters bound. It returns \<^verbatim>\<open>{ key, salt }\<close>: the pair
  of the two references.
\<close>

definition deriveKey_body ::
  "collaborators \<Rightarrow> js_value \<Rightarrow> ref \<Rightarrow> nat \<Rightarrow> nat \<Rightarrow> nat \<Rightarrow> nat \<Rightarrow> string option \<Rightarrow> world
     \<Rightarrow> (error + ref \<times> ref) \<times> world" where
  "deriveKey_body C password salt memoryMB iterations parallelism outputLength wasmPath w0 =
     (case password of
        JSString pw \<Rightarrow>
          if length pw = 0 then (Inl ValidationError, w0)
          else
            (let (passwordBytes, w1) = alloc (TextEncoder_encode pw) w0;
                 (hardened, w2) = pbkdf2PreHash C passwordBytes salt None w1
             in case loadArgon2Wasm C wasmPath w2 of
                  (Inl e, w3) \<Rightarrow> (Inl e, w3)
                | (Inr _, w3) \<Rightarrow>
                    (let (pwdPtr, w4) = malloc (length (bufs w3 hardened)) w3;
                         (saltPtr, w5) = malloc (length (bufs w4 salt)) w4;
                         (outPtr, w6) = malloc outputLength w5;
                         w7 = HEAPU8_set (bufs w6 hardened) pwdPtr w6;
                         w8 = HEAPU8_set (bufs w7 salt) saltPtr w7;
                         (result, w9) = argon2id_hash_raw_call C iterations (memoryMB * 1024)
                                          parallelism pwdPtr (length (bufs w8 hardened))
                                          saltPtr (length (bufs w8 salt)) outPtr outputLength w8
                     in if result \<noteq> 0 then (Inl DerivationError, w9)
                        else
                          (let (derivedKey, w10) =
                                 alloc (HEAPU8_slice outPtr (outPtr + outputLength) w9) w9;
                               w11 = HEAPU8_fill 0 pwdPtr (pwdPtr + length (bufs w10 hardened)) w10;
                               w12 = HEAPU8_fill 0 saltPtr (saltPtr + length (bufs w11 salt)) w11;
                               w13 = HEAPU8_fill 0 outPtr (outPtr + outputLength) w12;
                               w14 = free pwdPtr w13;
                               w15 = free saltPtr w14;
                               w16 = free outPtr w15;
                               w17 = zeroize passwordBytes w16;
                               w18 = zeroize hardened w17
                           in (Inr (derivedKey, salt), w18))))
      | _ \<Rightarrow> (Inl ValidationError, w0))"

text \<open>
  The defaults of the destructured parameter are evaluated when the function is entered,
  before its body: a missing \<^verbatim>\<open>salt\<close> is drawn by \<^verbatim>\<open>secureRandom(32)\<close> before the
  password is looked at.
\<close>

definition bind_salt :: "ref option \<Rightarrow> world \<Rightarrow> ref \<times> world" where
  "bind_salt given w = (case given of None \<Rightarrow> secureRandom 32 w | Some s \<Rightarrow> (s, w))"

definition deriveKey :: "collaborators \<Rightarrow> deriveKey_args \<Rightarrow> world \<Rightarrow> (error + ref \<times> ref) \<times> world" where
  "deriveKey C args w =
     (let (salt, w0) = bind_salt (arg_salt args) w
      in deriveKey_body C (arg_password args) salt (default 64 (arg_memoryMB args))
           (default 3 (arg_iterations args)) (default 1 (arg_parallelism args))
           (default 32 (arg_outputLength args)) (arg_wasmPath args) w0)"

text \<open>The module's self-test: two derivations from the same password and salt.\<close>

definition selfTest :: "collaborators \<Rightarrow> world \<Rightarrow> (error + bool) \<times> world" where
  "selfTest C w =
     (let pwd = JSString ''self-test-password'';
          (salt, w1) = secureRandom 32 w;
          args = \<lparr>arg_password = pwd, arg_salt = Some salt, arg_memoryMB = None,
                  arg_iterations = None, arg_parallelism = None, arg_outputLength = None,
                  arg_wasmPath = None\<rparr>
      in case deriveKey C args w1 of
           (Inl e, w2) \<Rightarrow> (Inl e, w2)
         | (Inr (a_key, a_salt), w2) \<Rightarrow>
             (case deriveKey C args w2 of
                (Inl e, w3) \<Rightarrow> (Inl e, w3)
              | (Inr (b_key, b_salt), w3) \<Rightarrow>
                  (Inr (constantTimeEqual (bufs w3 a_key) (bufs w3 b_key)), w3)))"

section \<open>crypto-core.js\<close>

text \<open>
  A file is read through \<^verbatim>\<open>file.stream().getReader()\<close>: it is given as the list of the
  chunks \<^verbatim>\<open>reader.read()\<close> delivers, in order, until \<^verbatim>\<open>done\<close>. The bytes of the file are
  their concatenation.
\<close>

type_synonym blob = "bytes list"

text \<open>One element \<^verbatim>\<open>{ cipherChunk, nonce }\<close> of \<^verbatim>\<open>encryptedChunks\<close>.\<close>

record chunk_record =
  rec_cipherChunk :: ref
  rec_nonce :: ref

definition generateFileKey :: "collaborators \<Rightarrow> js_value \<Rightarrow> world \<Rightarrow> (error + ref \<times> ref) \<times> world" where
  "generateFileKey C password w =
     (case randomBytes 32 w of
        (Inl e, w1) \<Rightarrow> (Inl e, w1)
      | (Inr salt, w1) \<Rightarrow>
          (case deriveKey C \<lparr>arg_password = password, arg_salt = Some salt,
                              arg_memoryMB = Some 128, arg_iterations = Some 3,
                              arg_parallelism = Some 1, arg_outputLength = None,
                              arg_wasmPath = None\<rparr> w1 of
             (Inl e, w2) \<Rightarrow> (Inl e, w2)
           | (Inr (key, _), w2) \<Rightarrow> (Inr (key, salt), w2)))"

definition encryptFileChunk :: "collaborators \<Rightarrow> ref \<Rightarrow> bytes \<Rightarrow> ref \<Rightarrow> world \<Rightarrow> ref \<times> world" where
  "encryptFileChunk C key chunk nonce w =
     alloc (subtle_encrypt C ''XChaCha20-Poly1305'' (bufs w key) (bufs w nonce) chunk) w"

definition decryptFileChunk :: "collaborators \<Rightarrow> ref \<Rightarrow> ref \<Rightarrow> ref \<Rightarrow> world \<Rightarrow> (error + ref) \<times> world" where
  "decryptFileChunk C key chunk nonce w =
     (case subtle_decrypt C ''XChaCha20-Poly1305'' (bufs w key) (bufs w nonce) (bufs w chunk) of
        None \<Rightarrow> (Inl AuthenticationError, w)
      | Some plaintext \<Rightarrow> (let (plainChunk, w1) = alloc plaintext w in (Inr plainChunk, w1)))"

text \<open>
  The \<^verbatim>\<open>while (true)\<close> loop of \<^verbatim>\<open>encryptFile\<close> over the chunks the reader delivers;
  \<open>encryptedChunks\<close> is the array pushed to. (The counter \<^verbatim>\<open>chunkIndex\<close> is written and
  never read.)
\<close>

fun encryptFile_loop ::
  "collaborators \<Rightarrow> ref \<Rightarrow> blob \<Rightarrow> chunk_record list \<Rightarrow> world \<Rightarrow> (error + chunk_record list) \<times> world" where
  "encryptFile_loop C key [] encryptedChunks w = (Inr encryptedChunks, w)"
| "encryptFile_loop C key (chunk # rest) encryptedChunks w =
     (case randomBytes 24 w of
        (Inl e, w1) \<Rightarrow> (Inl e, w1)
      | (Inr nonce, w1) \<Rightarrow>
          (let (cipherChunk, w2) = encryptFileChunk C key chunk nonce w1
           in encryptFile_loop C key rest
                (encryptedChunks @ [\<lparr>rec_cipherChunk = cipherChunk, rec_nonce = nonce\<rparr>]) w2))"

text \<open>\<^verbatim>\<open>encryptFile(file, password, chunkSize = 1024 * 1024)\<close> returns \<^verbatim>\<open>{ encryptedChunks, salt }\<close>.\<close>

definition encryptFile ::
  "collaborators \<Rightarrow> blob \<Rightarrow> js_value \<Rightarrow> nat option \<Rightarrow> world \<Rightarrow> (error + chunk_record list \<times> ref) \<times> world" where
  "encryptFile C file password chunkSize w =
     (case generateFileKey C password w of
        (Inl e, w1) \<Rightarrow> (Inl e, w1)
      | (Inr (key, salt), w1) \<Rightarrow>
          (case encryptFile_loop C key file [] w1 of
             (Inl e, w2) \<Rightarrow> (Inl e, w2)
           | (Inr encryptedChunks, w2) \<Rightarrow> (Inr (encryptedChunks, salt), zeroize key w2)))"

fun decryptFile_loop ::
  "collaborators \<Rightarrow> ref \<Rightarrow> chunk_record list \<Rightarrow> ref list \<Rightarrow> world \<Rightarrow> (error + ref list) \<times> world" where
  "decryptFile_loop C key [] decryptedChunks w = (Inr decryptedChunks, w)"
| "decryptFile_loop C key (r # rest) decryptedChunks w =
     (case decryptFileChunk C key (rec_cipherChunk r) (rec_nonce r) w of
        (Inl e, w1) \<Rightarrow> (Inl e, w1)
      | (Inr plainChunk, w1) \<Rightarrow> decryptFile_loop C key rest (decryptedChunks @ [plainChunk]) w1)"

definition decryptFile ::
  "collaborators \<Rightarrow> chunk_record list \<Rightarrow> js_value \<Rightarrow> ref \<Rightarrow> world \<Rightarrow> (error + ref list) \<times> world" where
  "decryptFile C encryptedChunks password salt w =
     (case deriveKey C \<lparr>arg_password = password, arg_salt = Some salt,
                         arg_memoryMB = Some 128, arg_iterations = Some 3,
                         arg_parallelism = Some 1, arg_outputLength = None,
                         arg_wasmPath = None\<rparr> w of
        (Inl e, w1) \<Rightarrow> (Inl e, w1)
      | (Inr (key, _), w1) \<Rightarrow>
          (case decryptFile_loop C key encryptedChunks [] w1 of
             (Inl e, w2) \<Rightarrow> (Inl e, w2)
           | (Inr decryptedChunks, w2) \<Rightarrow> (Inr decryptedChunks, zeroize key w2)))"

section \<open>app.js: the handlers of the encrypt and decrypt buttons\<close>

text \<open>
  What the handlers do to the buffers and to \<^verbatim>\<open>window.lastEncryptedFile\<close>; logging, the
  progress bar, the layer display and the delay of \<^verbatim>\<open>withEphemeralContext\<close> change neither.
  \<^verbatim>\<open>passwordInput.value\<close> is a string and \<^verbatim>\<open>fileInput.files[0]\<close> a file or nothing.
\<close>

record app =
  window_lastEncryptedFile :: "(chunk_record list \<times> ref) option"
  app_world :: world

definition handleEncrypt :: "collaborators \<Rightarrow> string \<Rightarrow> blob option \<Rightarrow> app \<Rightarrow> (error + unit) \<times> app" where
  "handleEncrypt C password file a =
     (case file of
        None \<Rightarrow> (Inr (), a)
      | Some f \<Rightarrow>
          if password = [] then (Inr (), a)
          else
            (case encryptFile C f (JSString password) None (app_world a) of
               (Inl e, w1) \<Rightarrow> (Inl e, a\<lparr>app_world := w1\<rparr>)
             | (Inr (encryptedChunks, salt), w1) \<Rightarrow>
                 (let w2 = zeroize salt w1
                  in (Inr (), \<lparr>window_lastEncryptedFile = Some (encryptedChunks, salt),
                               app_world = w2\<rparr>))))"

text \<open>\<^verbatim>\<open>handleDecrypt\<close> hands the decrypted chunks to a \<^verbatim>\<open>Blob\<close> for download.\<close>

definition handleDecrypt :: "collaborators \<Rightarrow> string \<Rightarrow> app \<Rightarrow> (error + ref list option) \<times> app" where
  "handleDecrypt C password a =
     (case window_lastEncryptedFile a of
        None \<Rightarrow> (Inr None, a)
      | Some (encryptedChunks, salt) \<Rightarrow>
          if password = [] then (Inr None, a)
          else
            (case decryptFile C encryptedChunks (JSString password) salt (app_world a) of
               (Inl e, w1) \<Rightarrow> (Inl e, a\<lparr>app_world := w1\<rparr>)
             | (Inr decryptedChunks, w1) \<Rightarrow> (Inr (Some decryptedChunks), a\<lparr>app_world := w1\<rparr>)))"

section \<open>The first app.js: AES-GCM under a PBKDF2 key\<close>

text \<open>
  \<^verbatim>\<open>crypto.subtle.deriveKey\<close> with PBKDF2 makes an AES-GCM key of 256 bits: the key is the
  256 bits PBKDF2 derives.
\<close>

definition deriveKeyFromPassword :: "collaborators \<Rightarrow> string \<Rightarrow> bytes" where
  "deriveKeyFromPassword C password =
     subtle_deriveBits C ''SHA-256'' (TextEncoder_encode password)
       (TextEncoder_encode ''sovereign-vault-salt'') 100000 256"

text \<open>\<^verbatim>\<open>encryptArrayBuffer\<close> returns \<^verbatim>\<open>{ encrypted, iv }\<close>.\<close>

definition encryptArrayBuffer :: "collaborators \<Rightarrow> bytes \<Rightarrow> string \<Rightarrow> world \<Rightarrow> (bytes \<times> ref) \<times> world" where
  "encryptArrayBuffer C data password w =
     (let (iv, w1) = alloc (replicate 12 0) w;
          w2 = getRandomValues iv w1;
          key = deriveKeyFromPassword C password;
          encrypted = subtle_encrypt C ''AES-GCM'' key (bufs w2 iv) data
      in ((encrypted, iv), w2))"

definition decryptArrayBuffer :: "collaborators \<Rightarrow> bytes \<Rightarrow> bytes \<Rightarrow> string \<Rightarrow> bytes option" where
  "decryptArrayBuffer C data iv password =
     (let key = deriveKeyFromPassword C password
      in subtle_decrypt C ''AES-GCM'' key iv data)"

section \<open>The container of the first crypto core\<close>

definition VAULT_MAGIC :: string where
  "VAULT_MAGIC = ''SVLT1''"

definition HEADER_VERSION :: byte where
  "HEADER_VERSION = 1"

text \<open>
  The binary argument of \<^verbatim>\<open>parseHeader\<close> and \<^verbatim>\<open>decryptFile\<close>: an \<^verbatim>\<open>ArrayBuffer\<close>, which
  is what \<^verbatim>\<open>file.arrayBuffer()\<close> gives and what the parameter is named after, or a
  \<^verbatim>\<open>Uint8Array\<close>. Both have \<^verbatim>\<open>slice\<close>, which gives a new object of the same kind, with
  the bounds clamped to the length. \<^verbatim>\<open>buffer[i]\<close> reads a byte of a \<^verbatim>\<open>Uint8Array\<close> and is
  \<^verbatim>\<open>undefined\<close> past its end; an \<^verbatim>\<open>ArrayBuffer\<close> has no indexed properties, so there
  \<^verbatim>\<open>buffer[i]\<close> is \<^verbatim>\<open>undefined\<close> for every \<open>i\<close>.
\<close>

datatype buffer_source = ArrayBuffer bytes | Uint8Array bytes

fun bytes_of :: "buffer_source \<Rightarrow> bytes" where
  "bytes_of (ArrayBuffer bs) = bs"
| "bytes_of (Uint8Array bs) = bs"

text \<open>\<^verbatim>\<open>buffer.slice(start, stop)\<close> for \<open>start \<le> stop\<close>, and \<^verbatim>\<open>buffer.slice(start)\<close>.\<close>

fun slice :: "nat \<Rightarrow> nat \<Rightarrow> buffer_source \<Rightarrow> buffer_source" where
  "slice start stop (ArrayBuffer bs) = ArrayBuffer (take (stop - start) (drop start bs))"
| "slice start stop (Uint8Array bs) = Uint8Array (take (stop - start) (drop start bs))"

fun slice_from :: "nat \<Rightarrow> buffer_source \<Rightarrow> buffer_source" where
  "slice_from start (ArrayBuffer bs) = ArrayBuffer (drop start bs)"
| "slice_from start (Uint8Array bs) = Uint8Array (drop start bs)"

fun at_index :: "buffer_source \<Rightarrow> nat \<Rightarrow> byte option" where
  "at_index (ArrayBuffer bs) i = None"
| "at_index (Uint8Array bs) i = (if i < length bs then Some (bs ! i) else None)"

text \<open>
  \<^verbatim>\<open>new TextDecoder().decode(buffer)\<close>, byte by byte. On five bytes the result is the text
  \<^verbatim>\<open>"SVLT1"\<close> for the five ASCII bytes of that text and for no others, as with the UTF-8
  decoder (which turns every byte sequence that is not ASCII into other characters).
\<close>

definition TextDecoder_decode :: "buffer_source \<Rightarrow> string" where
  "TextDecoder_decode buffer = map (\<lambda>b. char_of (unat b)) (bytes_of buffer)"

text \<open>The object \<^verbatim>\<open>parseHeader\<close> returns; \<open>None\<close> is a \<^verbatim>\<open>version\<close> that is \<^verbatim>\<open>undefined\<close>.\<close>

record vault_header =
  header_version :: "byte option"
  header_salt :: buffer_source
  header_nonce :: buffer_source
  header_offset :: nat

definition createHeader :: "bytes \<Rightarrow> bytes \<Rightarrow> bytes" where
  "createHeader salt nonce = TextEncoder_encode VAULT_MAGIC @ [HEADER_VERSION] @ salt @ nonce"

definition parseHeader :: "buffer_source \<Rightarrow> error + vault_header" where
  "parseHeader buffer =
     (let magic = TextDecoder_decode (slice 0 5 buffer)
      in if magic \<noteq> VAULT_MAGIC then Inl FormatError
         else Inr \<lparr>header_version = at_index buffer 5,
                   header_salt = slice 6 38 buffer,
                   header_nonce = slice 38 62 buffer,
                   header_offset = 62\<rparr>)"

text \<open>
  Modelled from the spec: \<^verbatim>\<open>wipeBuffer\<close> and \<^verbatim>\<open>argon2id\<close>, which this file imports from
  \<^verbatim>\<open>secure-utils.js\<close> and \<^verbatim>\<open>argon2.wasm.js\<close> and which the versions of those modules in
  the repository do not export. \<^verbatim>\<open>wipeBuffer\<close> overwrites every byte with zero in place, as
  \<open>zeroize\<close> does; \<^verbatim>\<open>argon2id\<close> is the memory-hard function, here the native function with
  the parameters the call names, failing on a status other than 0.
\<close>

definition deriveMasterKey :: "collaborators \<Rightarrow> string \<Rightarrow> ref \<Rightarrow> world \<Rightarrow> (error + ref) \<times> world" where
  "deriveMasterKey C password salt w =
     (let (pwdBytes, w1) = alloc (TextEncoder_encode password) w;
          (status, out) = argon2id_hash_raw C 5 65536 4 (bufs w1 pwdBytes) (bufs w1 salt) 32
      in if status \<noteq> 0 then (Inl DerivationError, w1)
         else (let (key, w2) = alloc out w1;
                   w3 = zeroize pwdBytes w2
               in (Inr key, w3)))"

definition encryptFile_vault :: "collaborators \<Rightarrow> bytes \<Rightarrow> string \<Rightarrow> world \<Rightarrow> (error + bytes) \<times> world" where
  "encryptFile_vault C arrayBuffer password w =
     (case randomBytes 32 w of
        (Inl e, w1) \<Rightarrow> (Inl e, w1)
      | (Inr salt, w1) \<Rightarrow>
          (case randomBytes 24 w1 of
             (Inl e, w2) \<Rightarrow> (Inl e, w2)
           | (Inr nonce, w2) \<Rightarrow>
               (case deriveMasterKey C password salt w2 of
                  (Inl e, w3) \<Rightarrow> (Inl e, w3)
                | (Inr masterKey, w3) \<Rightarrow>
                    (let encrypted = subtle_encrypt C ''XChaCha20-Poly1305''
                                       (bufs w3 masterKey) (bufs w3 nonce) arrayBuffer;
                         w4 = zeroize masterKey w3
                     in (Inr (createHeader (bufs w4 salt) (bufs w4 nonce) @ encrypted), w4)))))"

text \<open>
  \<^verbatim>\<open>decryptFile(arrayBuffer, password)\<close>. \<^verbatim>\<open>header.version\<close> is not read. The salt sliced
  from the container is an object of its own.
\<close>

definition decryptFile_vault ::
  "collaborators \<Rightarrow> buffer_source \<Rightarrow> string \<Rightarrow> world \<Rightarrow> (error + bytes) \<times> world" where
  "decryptFile_vault C arrayBuffer password w =
     (case parseHeader arrayBuffer of
        Inl e \<Rightarrow> (Inl e, w)
      | Inr header \<Rightarrow>
          (let encryptedData = slice_from (header_offset header) arrayBuffer;
               (salt, w1) = alloc (bytes_of (header_salt header)) w
           in case deriveMasterKey C password salt w1 of
                (Inl e, w2) \<Rightarrow> (Inl e, w2)
              | (Inr masterKey, w2) \<Rightarrow>
                  (case subtle_decrypt C ''XChaCha20-Poly1305'' (bufs w2 masterKey)
                          (bytes_of (header_nonce header)) (bytes_of encryptedData) of
                     None \<Rightarrow> (Inl AuthenticationError, w2)
                   | Some decrypted \<Rightarrow> (Inr decrypted, zeroize masterKey w2))))"

section \<open>The derivation and the cipher as the specification words them\<close>

text \<open>
  Pre-hardening (PBKDF2-HMAC-SHA-512, 2000000 iterations, 256 bits) of the password bytes,
  then the memory-hard function over the pre-hardened bytes: the status and the output of
  the native function.
\<close>

definition prehash :: "collaborators \<Rightarrow> string \<Rightarrow> bytes \<Rightarrow> bytes" where
  "prehash C pw saltBytes = subtle_deriveBits C ''SHA-512'' (TextEncoder_encode pw) saltBytes 2000000 256"

definition kdf :: "collaborators \<Rightarrow> string \<Rightarrow> bytes \<Rightarrow> nat \<Rightarrow> nat \<Rightarrow> nat \<Rightarrow> nat \<Rightarrow> int \<times> bytes" where
  "kdf C pw saltBytes memMB iters par outLen =
     argon2id_hash_raw C iters (memMB * 1024) par (prehash C pw saltBytes) saltBytes outLen"

text \<open>The contracts of the collaborators that the properties below rest on.\<close>

definition argon2_fills :: "collaborators \<Rightarrow> bool" where
  "argon2_fills C =
     (\<forall>t m p pwd s n. fst (argon2id_hash_raw C t m p pwd s n) = 0
        \<longrightarrow> length (snd (argon2id_hash_raw C t m p pwd s n)) = n)"

definition aead_correct :: "collaborators \<Rightarrow> bool" where
  "aead_correct C =
     (\<forall>name k iv d. subtle_decrypt C name k iv (subtle_encrypt C name k iv d) = Some d)"

text \<open>Whether \<^verbatim>\<open>loadArgon2Wasm\<close> can return the module: it is loaded, or the fetch succeeds.\<close>

definition loadable :: "collaborators \<Rightarrow> world \<Rightarrow> string option \<Rightarrow> bool" where
  "loadable C w wasmPath \<longleftrightarrow> argon2Instance w \<or> fetch_ok C (default ''./argon2.wasm'' wasmPath)"

text \<open>
  \<^verbatim>\<open>deriveKey(password, salt, params)\<close> as the specification has it, a function of its
  inputs: a ValidationError for a password that is not a string or is empty, a
  DerivationError if the memory-hard primitive fails to initialize or reports a status
  other than success, the key otherwise.
\<close>

definition deriveKey_spec ::
  "collaborators \<Rightarrow> bool \<Rightarrow> js_value \<Rightarrow> bytes \<Rightarrow> nat \<Rightarrow> nat \<Rightarrow> nat \<Rightarrow> nat \<Rightarrow> error + bytes" where
  "deriveKey_spec C initializes password saltBytes memMB iters par outLen =
     (case password of
        JSString pw \<Rightarrow>
          if pw = [] then Inl ValidationError
          else if \<not> initializes then Inl DerivationError
          else (case kdf C pw saltBytes memMB iters par outLen of
                  (status, out) \<Rightarrow> if status \<noteq> 0 then Inl DerivationError else Inr out)
      | _ \<Rightarrow> Inl ValidationError)"

text \<open>What the caller of \<^verbatim>\<open>deriveKey\<close> gets: the error, or the bytes of the key.\<close>

definition derived_key :: "(error + ref \<times> ref) \<times> world \<Rightarrow> error + bytes" where
  "derived_key res = (case res of (Inl e, w') \<Rightarrow> Inl e | (Inr (k, s), w') \<Rightarrow> Inr (bufs w' k))"

text \<open>A chunk record whose two buffers exist, what it opens to under a key, and that it
  holds a chunk sealed under a key.\<close>

definition live :: "world \<Rightarrow> chunk_record \<Rightarrow> bool" where
  "live w r \<longleftrightarrow> rec_cipherChunk r < next_ref w \<and> rec_nonce r < next_ref w"

definition opens :: "collaborators \<Rightarrow> bytes \<Rightarrow> world \<Rightarrow> chunk_record \<Rightarrow> bytes option" where
  "opens C k w r =
     subtle_decrypt C ''XChaCha20-Poly1305'' k (bufs w (rec_nonce r)) (bufs w (rec_cipherChunk r))"

definition sealed :: "collaborators \<Rightarrow> bytes \<Rightarrow> world \<Rightarrow> chunk_record \<Rightarrow> bytes \<Rightarrow> bool" where
  "sealed C k w r chunk \<longleftrightarrow>
     rec_cipherChunk r < next_ref w \<and> rec_nonce r < next_ref w \<and>
     bufs w (rec_cipherChunk r) =
       subtle_encrypt C ''XChaCha20-Poly1305'' k (bufs w (rec_nonce r)) chunk"

text \<open>The \<open>i\<close>-th block of 24 bytes the generator delivers from position \<open>off\<close> on.\<close>

definition nonce_block :: "world \<Rightarrow> nat \<Rightarrow> nat \<Rightarrow> bytes" where
  "nonce_block w off i = map (\<lambda>j. csprng w (off + 24 * i + j)) [0..<24]"

text \<open>
  The bytes of the salt a call of \<^verbatim>\<open>deriveKey\<close> derives from: those of the buffer passed,
  or the 32 bytes \<^verbatim>\<open>secureRandom\<close> draws for the default.
\<close>

definition salt_used :: "deriveKey_args \<Rightarrow> world \<Rightarrow> bytes" where
  "salt_used args w =
     (case arg_salt args of Some r \<Rightarrow> bufs w r | None \<Rightarrow> map (csprng w) [0..<32])"

section \<open>An instance to run the functions on\<close>

text \<open>
  Small stand-ins for the collaborators and a starting world, used where a statement is
  checked on concrete inputs: a cipher that masks with the first byte of the key and appends a
  tag byte of key and nonce, and a native Argon2 that rejects a salt of fewer than 8 bytes with
  status \<open>-6\<close>, as \<^verbatim>\<open>ARGON2_SALT_TOO_SHORT\<close>.
\<close>

definition key_byte :: "bytes \<Rightarrow> byte" where
  "key_byte k = (case k of [] \<Rightarrow> 0 | b # _ \<Rightarrow> b)"

definition demo :: collaborators where
  "demo =
     \<lparr>subtle_deriveBits = (\<lambda>hash pw s it bits. replicate (bits div 8) (sum_list pw + sum_list s)),
      subtle_encrypt = (\<lambda>name k iv d. map (\<lambda>b. b XOR key_byte k) d @ [key_byte k + sum_list iv]),
      subtle_decrypt = (\<lambda>name k iv c.
         if c \<noteq> [] \<and> last c = key_byte k + sum_list iv
         then Some (map (\<lambda>b. b XOR key_byte k) (butlast c)) else None),
      fetch_ok = (\<lambda>path. path = ''./argon2.wasm''),
      argon2id_hash_raw = (\<lambda>t m p pwd s n.
         if length s < 8 then (- 6, []) else (0, replicate n (sum_list pwd + sum_list s + 1)))\<rparr>"

definition world0 :: world where
  "world0 = \<lparr>bufs = (\<lambda>r. []), next_ref = 0, csprng = (\<lambda>i. of_nat i), HEAPU8 = (\<lambda>a. 0),
             heap_brk = 0, argon2Instance = False\<rparr>"

text \<open>Two worlds that hold the same 32 bytes in buffer 0 and differ in everything else.\<close>

definition world1 :: world where
  "world1 = \<lparr>bufs = (\<lambda>r. if r = 0 then replicate 32 7 else []), next_ref = 1,
             csprng = (\<lambda>i. of_nat i), HEAPU8 = (\<lambda>a. 0), heap_brk = 0, argon2Instance = True\<rparr>"

definition world2 :: world where
  "world2 = \<lparr>bufs = (\<lambda>r. if r = 0 then replicate 32 7 else [1, 2, 3]), next_ref = 5,
             csprng = (\<lambda>i. 9), HEAPU8 = (\<lambda>a. 255), heap_brk = 1000, argon2Instance = True\<rparr>"

text \<open>The calls \<^verbatim>\<open>deriveKey({ password: "pw" })\<close> and \<^verbatim>\<open>deriveKey({ password: "pw", salt })\<close>
  with the salt in buffer 0.\<close>

definition args0 :: deriveKey_args where
  "args0 = \<lparr>arg_password = JSString ''pw'', arg_salt = None, arg_memoryMB = None,
             arg_iterations = None, arg_parallelism = None, arg_outputLength = None,
             arg_wasmPath = None\<rparr>"

definition args1 :: deriveKey_args where
  "args1 = \<lparr>arg_password = JSString ''pw'', arg_salt = Some 0, arg_memoryMB = None,
             arg_iterations = None, arg_parallelism = None, arg_outputLength = None,
             arg_wasmPath = None\<rparr>"

text \<open>
  A world with a salt in buffer 0, an empty nonce in buffer 1, in buffer 2 the bytes 1, 2
  sealed under the key the password \<^verbatim>\<open>"pw"\<close> gives with that salt, and in buffer 3 a byte
  that is no ciphertext; and the two chunk records over them.
\<close>

definition world3 :: world where
  "world3 = \<lparr>bufs = (\<lambda>r. if r = 0 then replicate 32 7 else if r = 2 then [192, 195, 193]
                          else if r = 3 then [0] else []),
             next_ref = 4, csprng = (\<lambda>i. of_nat i), HEAPU8 = (\<lambda>a. 0), heap_brk = 0,
             argon2Instance = True\<rparr>"

definition good_record :: chunk_record where
  "good_record = \<lparr>rec_cipherChunk = 2, rec_nonce = 1\<rparr>"

definition bad_record :: chunk_record where
  "bad_record = \<lparr>rec_cipherChunk = 3, rec_nonce = 1\<rparr>"

text \<open>A world whose buffer 0 holds a salt of four bytes, and the application before any
  file was encrypted.\<close>

definition world4 :: world where
  "world4 = \<lparr>bufs = (\<lambda>r. if r = 0 then [1, 2, 3, 4] else []), next_ref = 1,
             csprng = (\<lambda>i. of_nat i), HEAPU8 = (\<lambda>a. 0), heap_brk = 0, argon2Instance = False\<rparr>"

definition app0 :: app where
  "app0 = \<lparr>window_lastEncryptedFile = None, app_world = world0\<rparr>"

text \<open>A world like \<open>world0\<close> whose generator delivers the byte 9 at every position.\<close>

definition world5 :: world where
  "world5 = \<lparr>bufs = (\<lambda>r. []), next_ref = 0, csprng = (\<lambda>i. 9), HEAPU8 = (\<lambda>a. 0),
             heap_brk = 0, argon2Instance = False\<rparr>"

section \<open>The Argon2 module's memory\<close>

lemma HEAPU8_set_proj [simp]:
  "bufs (HEAPU8_set xs p w) = bufs w" "next_ref (HEAPU8_set xs p w) = next_ref w"
  "csprng (HEAPU8_set xs p w) = csprng w" "heap_brk (HEAPU8_set xs p w) = heap_brk w"
  "argon2Instance (HEAPU8_set xs p w) = argon2Instance w"
  by (simp_all add: HEAPU8_set_def)

lemma HEAPU8_fill_proj [simp]:
  "bufs (HEAPU8_fill v a b w) = bufs w" "next_ref (HEAPU8_fill v a b w) = next_ref w"
  "csprng (HEAPU8_fill v a b w) = csprng w" "heap_brk (HEAPU8_fill v a b w) = heap_brk w"
  "argon2Instance (HEAPU8_fill v a b w) = argon2Instance w"
  by (simp_all add: HEAPU8_fill_def)

lemma HEAPU8_set_upd [simp]:
  "HEAPU8_set xs p (w\<lparr>bufs := b\<rparr>) = (HEAPU8_set xs p w)\<lparr>bufs := b\<rparr>"
  "HEAPU8_set xs p (w\<lparr>next_ref := n\<rparr>) = (HEAPU8_set xs p w)\<lparr>next_ref := n\<rparr>"
  "HEAPU8_set xs p (w\<lparr>heap_brk := k\<rparr>) = (HEAPU8_set xs p w)\<lparr>heap_brk := k\<rparr>"
  "HEAPU8_set xs p (w\<lparr>argon2Instance := i\<rparr>) = (HEAPU8_set xs p w)\<lparr>argon2Instance := i\<rparr>"
  by (simp_all add: HEAPU8_set_def cong: if_cong)

lemma HEAPU8_fill_upd [simp]:
  "HEAPU8_fill v a c (w\<lparr>bufs := b\<rparr>) = (HEAPU8_fill v a c w)\<lparr>bufs := b\<rparr>"
  "HEAPU8_fill v a c (w\<lparr>next_ref := n\<rparr>) = (HEAPU8_fill v a c w)\<lparr>next_ref := n\<rparr>"
  "HEAPU8_fill v a c (w\<lparr>heap_brk := k\<rparr>) = (HEAPU8_fill v a c w)\<lparr>heap_brk := k\<rparr>"
  "HEAPU8_fill v a c (w\<lparr>argon2Instance := i\<rparr>) = (HEAPU8_fill v a c w)\<lparr>argon2Instance := i\<rparr>"
  by (simp_all add: HEAPU8_fill_def cong: if_cong)

lemma HEAPU8_slice_upd [simp]:
  "HEAPU8_slice a c (w\<lparr>bufs := b\<rparr>) = HEAPU8_slice a c w"
  "HEAPU8_slice a c (w\<lparr>next_ref := n\<rparr>) = HEAPU8_slice a c w"
  "HEAPU8_slice a c (w\<lparr>heap_brk := k\<rparr>) = HEAPU8_slice a c w"
  "HEAPU8_slice a c (w\<lparr>argon2Instance := i\<rparr>) = HEAPU8_slice a c w"
  by (simp_all add: HEAPU8_slice_def)

lemma HEAPU8_set_at:
  "HEAPU8 (HEAPU8_set xs p w) x = (if p \<le> x \<and> x < p + length xs then xs ! (x - p) else HEAPU8 w x)"
  by (simp add: HEAPU8_set_def)

lemma HEAPU8_fill_at:
  "HEAPU8 (HEAPU8_fill v a b w) x = (if a \<le> x \<and> x < b then v else HEAPU8 w x)"
  by (simp add: HEAPU8_fill_def)

lemma heap_slice_set_same [simp]:
  "HEAPU8_slice p (p + length xs) (HEAPU8_set xs p w) = xs"
  by (auto simp: HEAPU8_slice_def HEAPU8_set_def intro!: nth_equalityI)

lemma heap_slice_set_other [simp]:
  "q + n \<le> p \<or> p + length xs \<le> q \<Longrightarrow>
   HEAPU8_slice q (q + n) (HEAPU8_set xs p w) = HEAPU8_slice q (q + n) w"
  by (auto simp: HEAPU8_slice_def HEAPU8_set_def)

lemma heap_slice_set_above:
  "p + length xs \<le> q \<Longrightarrow> HEAPU8_slice q r (HEAPU8_set xs p w) = HEAPU8_slice q r w"
  by (auto simp: HEAPU8_slice_def HEAPU8_set_def)

lemma heap_slice_set_out:
  "HEAPU8_slice p (p + n) (HEAPU8_set xs p w) =
     take n xs @ HEAPU8_slice (p + length xs) (p + n) w"
  by (simp add: HEAPU8_slice_def HEAPU8_set_def list_eq_iff_nth_eq nth_append)

lemma heap_after_wipe:
  fixes a :: nat
  assumes "W = HEAPU8_fill 0 c d (HEAPU8_fill 0 b c (HEAPU8_fill 0 a b
                 (HEAPU8_set out c (HEAPU8_set S b (HEAPU8_set H a w)))))"
    and "b = a + length H" "c = b + length S" "d = c + n"
  shows "\<forall>x. a \<le> x \<and> x < d \<longrightarrow> HEAPU8 W x = 0"
    and "\<forall>x. x < a \<longrightarrow> HEAPU8 W x = HEAPU8 w x"
  using assms by (simp_all add: HEAPU8_fill_at HEAPU8_set_at)

lemma key_slice:
  assumes "b = a + length H" "c = b + length S"
  shows "HEAPU8_slice c (c + n) (HEAPU8_set out c (HEAPU8_set S b (HEAPU8_set H a w))) =
     take n out @ HEAPU8_slice (c + length out) (c + n) w"
  using assms by (simp add: heap_slice_set_out heap_slice_set_above)

lemma HEAPU8_slice_empty [simp]: "HEAPU8_slice a a w = []"
  by (simp add: HEAPU8_slice_def)

section \<open>Random bytes\<close>

lemma secureRandom_run:
  "\<exists>w'. secureRandom n w = (next_ref w, w')
     \<and> bufs w' = (bufs w)(next_ref w := map (csprng w) [0..<n])
     \<and> next_ref w' = Suc (next_ref w)
     \<and> csprng w' = (\<lambda>i. csprng w (i + n))
     \<and> HEAPU8 w' = HEAPU8 w \<and> heap_brk w' = heap_brk w \<and> argon2Instance w' = argon2Instance w"
  by (simp add: secureRandom_def alloc_def getRandomValues_def Let_def)

lemma randomBytes_run:
  "0 < len \<Longrightarrow> \<exists>w'. randomBytes len w = (Inr (next_ref w), w')
     \<and> bufs w' = (bufs w)(next_ref w := map (csprng w) [0..<nat len])
     \<and> next_ref w' = Suc (next_ref w)
     \<and> csprng w' = (\<lambda>i. csprng w (i + nat len))
     \<and> HEAPU8 w' = HEAPU8 w \<and> heap_brk w' = heap_brk w \<and> argon2Instance w' = argon2Instance w"
  by (simp add: randomBytes_def alloc_def getRandomValues_def Let_def)

lemma map_shift: "map (\<lambda>i. f (i + n)) [0..<m] = map f [n..<m + n]"
  by (simp only: map_add_upt[symmetric] map_map comp_def)

section \<open>deriveKey, path by path\<close>

lemma loadArgon2Wasm_ok:
  "argon2Instance w \<or> fetch_ok C (default ''./argon2.wasm'' path) \<Longrightarrow>
   loadArgon2Wasm C path w = (Inr (), w\<lparr>argon2Instance := True\<rparr>)"
  by (cases w) (auto simp: loadArgon2Wasm_def)

lemma loadArgon2Wasm_fails:
  "\<not> argon2Instance w \<Longrightarrow> \<not> fetch_ok C (default ''./argon2.wasm'' path) \<Longrightarrow>
   loadArgon2Wasm C path w = (Inl DerivationError, w)"
  by (simp add: loadArgon2Wasm_def)

lemma default_simps [simp]: "default d None = d" "default d (Some v) = v"
  by (simp_all add: default_def)

lemmas deriveKey_steps =
  deriveKey_body_def Let_def alloc_def pbkdf2PreHash_def malloc_def argon2id_hash_raw_call_def
  free_def zeroize_def prehash_def[symmetric]

lemma deriveKey_body_invalid:
  "(\<forall>pw. password = JSString pw \<longrightarrow> pw = []) \<Longrightarrow>
   deriveKey_body C password s mem it par outLen path w = (Inl ValidationError, w)"
  by (cases password) (simp_all add: deriveKey_body_def)

lemma deriveKey_body_load_fails:
  assumes "pw \<noteq> []" "s < next_ref w"
    and "\<not> argon2Instance w" "\<not> fetch_ok C (default ''./argon2.wasm'' path)"
  shows "\<exists>w'. deriveKey_body C (JSString pw) s mem it par outLen path w = (Inl DerivationError, w')
      \<and> bufs w' = (bufs w)(next_ref w := TextEncoder_encode pw,
                          Suc (next_ref w) := prehash C pw (bufs w s))
      \<and> next_ref w' = Suc (Suc (next_ref w)) \<and> csprng w' = csprng w
      \<and> HEAPU8 w' = HEAPU8 w \<and> heap_brk w' = heap_brk w \<and> \<not> argon2Instance w'"
  using assms by (simp add: deriveKey_steps loadArgon2Wasm_fails)

lemma deriveKey_body_argon2_fails:
  assumes "pw \<noteq> []" "s < next_ref w"
    and "argon2Instance w \<or> fetch_ok C (default ''./argon2.wasm'' path)"
    and H: "prehash C pw (bufs w s) = H" and S: "bufs w s = S"
    and k: "argon2id_hash_raw C it (mem * 1024) par H S outLen = (st, out)" "st \<noteq> 0"
  shows "\<exists>w'. deriveKey_body C (JSString pw) s mem it par outLen path w = (Inl DerivationError, w')
      \<and> bufs w' = (bufs w)(next_ref w := TextEncoder_encode pw, Suc (next_ref w) := H)
      \<and> next_ref w' = Suc (Suc (next_ref w)) \<and> csprng w' = csprng w
      \<and> HEAPU8 w' = HEAPU8 (HEAPU8_set out (heap_brk w + length H + length S)
                     (HEAPU8_set S (heap_brk w + length H) (HEAPU8_set H (heap_brk w) w)))
      \<and> heap_brk w' = heap_brk w + length H + length S + outLen \<and> argon2Instance w'"
  using assms by (simp add: deriveKey_steps loadArgon2Wasm_ok)

lemma deriveKey_body_succeeds:
  assumes "pw \<noteq> []" "s < next_ref w"
    and "argon2Instance w \<or> fetch_ok C (default ''./argon2.wasm'' path)"
    and H: "prehash C pw (bufs w s) = H" and S: "bufs w s = S"
    and k: "argon2id_hash_raw C it (mem * 1024) par H S outLen = (0, out)"
  shows "\<exists>w'. deriveKey_body C (JSString pw) s mem it par outLen path w
                 = (Inr (Suc (Suc (next_ref w)), s), w')
      \<and> bufs w' = (bufs w)
             (Suc (Suc (next_ref w)) :=
                HEAPU8_slice (heap_brk w + length H + length S)
                 (heap_brk w + length H + length S + outLen)
                 (HEAPU8_set out (heap_brk w + length H + length S)
                   (HEAPU8_set S (heap_brk w + length H)
                     (HEAPU8_set H (heap_brk w) w))),
                next_ref w := replicate (length (TextEncoder_encode pw)) 0,
                Suc (next_ref w) := replicate (length H) 0)
      \<and> next_ref w' = Suc (Suc (Suc (next_ref w))) \<and> csprng w' = csprng w
      \<and> HEAPU8 w' = HEAPU8 (HEAPU8_fill 0 (heap_brk w + length H + length S)
         (heap_brk w + length H + length S + outLen)
         (HEAPU8_fill 0 (heap_brk w + length H)
           (heap_brk w + length H + length S)
           (HEAPU8_fill 0 (heap_brk w) (heap_brk w + length H)
             (HEAPU8_set out (heap_brk w + length H + length S)
               (HEAPU8_set S (heap_brk w + length H)
                 (HEAPU8_set H (heap_brk w) w))))))
      \<and> heap_brk w' = heap_brk w + length H + length S + outLen \<and> argon2Instance w'"
  using assms by (simp add: deriveKey_steps loadArgon2Wasm_ok)

text \<open>What a successful run of the body of \<open>deriveKey\<close> tells.\<close>

lemma deriveKey_body_Inr:
  assumes run: "deriveKey_body C password s mem it par outLen path w = (Inr (k, s'), w')"
    and live: "s < next_ref w"
  shows "\<exists>pw out. password = JSString pw \<and> pw \<noteq> []
      \<and> (argon2Instance w \<or> fetch_ok C (default ''./argon2.wasm'' path))
      \<and> kdf C pw (bufs w s) mem it par outLen = (0, out)
      \<and> k = Suc (Suc (next_ref w)) \<and> s' = s
      \<and> bufs w' = (bufs w)
             (Suc (Suc (next_ref w)) :=
                take outLen out @
                HEAPU8_slice (heap_brk w + length (prehash C pw (bufs w s)) + length (bufs w s) + length out)
                   (heap_brk w + length (prehash C pw (bufs w s)) + length (bufs w s) + outLen) w,
              next_ref w := replicate (length pw) 0,
              Suc (next_ref w) := replicate (length (prehash C pw (bufs w s))) 0)
      \<and> next_ref w' = Suc (Suc (Suc (next_ref w))) \<and> csprng w' = csprng w
      \<and> heap_brk w' = heap_brk w + length (prehash C pw (bufs w s)) + length (bufs w s) + outLen
      \<and> argon2Instance w'
      \<and> (\<forall>a. heap_brk w \<le> a \<and> a < heap_brk w' \<longrightarrow> HEAPU8 w' a = 0)
      \<and> (\<forall>a. a < heap_brk w \<longrightarrow> HEAPU8 w' a = HEAPU8 w a)"
proof -
  obtain pw where pw: "password = JSString pw" "pw \<noteq> []"
    using run deriveKey_body_invalid[of password C s mem it par outLen path w] by auto
  have load: "argon2Instance w \<or> fetch_ok C (default ''./argon2.wasm'' path)"
    using run deriveKey_body_load_fails[OF pw(2) live, of C path mem it par outLen] pw(1) by auto
  obtain st out where k: "argon2id_hash_raw C it (mem * 1024) par (prehash C pw (bufs w s)) (bufs w s) outLen = (st, out)"
    by force
  have st: "st = 0"
    using run deriveKey_body_argon2_fails[OF pw(2) live load refl refl k] pw(1) by auto
  note ok = deriveKey_body_succeeds[OF pw(2) live load refl refl k[unfolded st]]
  let ?H = "prehash C pw (bufs w s)" and ?S = "bufs w s"
  let ?W = "HEAPU8_fill 0 (heap_brk w + length ?H + length ?S) (heap_brk w + length ?H + length ?S + outLen)
         (HEAPU8_fill 0 (heap_brk w + length ?H) (heap_brk w + length ?H + length ?S)
           (HEAPU8_fill 0 (heap_brk w) (heap_brk w + length ?H)
             (HEAPU8_set out (heap_brk w + length ?H + length ?S)
               (HEAPU8_set ?S (heap_brk w + length ?H) (HEAPU8_set ?H (heap_brk w) w)))))"
  from ok run pw(1) have
    res: "k = Suc (Suc (next_ref w))" "s' = s"
    and b: "bufs w' = (bufs w)
             (Suc (Suc (next_ref w)) :=
                HEAPU8_slice (heap_brk w + length ?H + length ?S)
                 (heap_brk w + length ?H + length ?S + outLen)
                 (HEAPU8_set out (heap_brk w + length ?H + length ?S)
                   (HEAPU8_set ?S (heap_brk w + length ?H) (HEAPU8_set ?H (heap_brk w) w))),
                next_ref w := replicate (length (TextEncoder_encode pw)) 0,
                Suc (next_ref w) := replicate (length ?H) 0)"
    and rest: "next_ref w' = Suc (Suc (Suc (next_ref w)))" "csprng w' = csprng w"
      "heap_brk w' = heap_brk w + length ?H + length ?S + outLen" "argon2Instance w'"
    and h: "HEAPU8 w' = HEAPU8 ?W"
    by auto
  have wiped: "\<forall>a. heap_brk w \<le> a \<and> a < heap_brk w' \<longrightarrow> HEAPU8 w' a = 0"
    and below: "\<forall>a. a < heap_brk w \<longrightarrow> HEAPU8 w' a = HEAPU8 w a"
    using heap_after_wipe[OF refl refl refl refl, of "heap_brk w" ?H ?S outLen out w] h rest(3)
    by simp_all
  have kd: "kdf C pw (bufs w s) mem it par outLen = (0, out)"
    using k st by (simp add: kdf_def)
  show ?thesis
    using pw load kd res b rest wiped below
    by (simp add: key_slice[OF refl refl] TextEncoder_encode_def)
qed

lemma deriveKey_body_valid_error:
  assumes "pw \<noteq> []"
  shows "fst (deriveKey_body C (JSString pw) s mem it par outLen path w) \<noteq> Inl ValidationError"
  using assms
  by (simp add: deriveKey_body_def Let_def loadArgon2Wasm_def split_def)

section \<open>deriveKey as a whole\<close>

lemma deriveKey_unfold:
  "deriveKey C args w =
     deriveKey_body C (arg_password args) (fst (bind_salt (arg_salt args) w))
       (default 64 (arg_memoryMB args)) (default 3 (arg_iterations args))
       (default 1 (arg_parallelism args)) (default 32 (arg_outputLength args))
       (arg_wasmPath args) (snd (bind_salt (arg_salt args) w))"
  by (simp add: deriveKey_def split_def Let_def)

lemma bind_salt_Some [simp]: "bind_salt (Some s) w = (s, w)"
  by (simp add: bind_salt_def)

lemma bind_salt_None:
  "\<exists>w0. bind_salt None w = (next_ref w, w0)
     \<and> bufs w0 = (bufs w)(next_ref w := map (csprng w) [0..<32])
     \<and> next_ref w0 = Suc (next_ref w)
     \<and> csprng w0 = (\<lambda>i. csprng w (i + 32))
     \<and> HEAPU8 w0 = HEAPU8 w \<and> heap_brk w0 = heap_brk w \<and> argon2Instance w0 = argon2Instance w"
  using secureRandom_run[of 32 w] by (simp add: bind_salt_def)

lemma deriveKey_Inr:
  assumes run: "deriveKey C args w = (Inr (k, s), w')"
    and live: "\<forall>r. arg_salt args = Some r \<longrightarrow> r < next_ref w"
  shows "\<exists>pw out. arg_password args = JSString pw \<and> pw \<noteq> []
      \<and> (argon2Instance w \<or> fetch_ok C (default ''./argon2.wasm'' (arg_wasmPath args)))
      \<and> kdf C pw (salt_used args w) (default 64 (arg_memoryMB args))
           (default 3 (arg_iterations args)) (default 1 (arg_parallelism args))
           (default 32 (arg_outputLength args)) = (0, out)
      \<and> s = (case arg_salt args of Some r \<Rightarrow> r | None \<Rightarrow> next_ref w)
      \<and> bufs w' s = salt_used args w
      \<and> s < k \<and> k < next_ref w' \<and> next_ref w \<le> k \<and> next_ref w \<le> next_ref w'
      \<and> bufs w' k = take (default 32 (arg_outputLength args)) out @
            HEAPU8_slice (heap_brk w + length (prehash C pw (salt_used args w))
                            + length (salt_used args w) + length out)
                         (heap_brk w + length (prehash C pw (salt_used args w))
                            + length (salt_used args w) + default 32 (arg_outputLength args)) w
      \<and> (\<forall>r<next_ref w. bufs w' r = bufs w r)
      \<and> (\<forall>r. r < next_ref w' \<and> r \<noteq> k \<and> r \<noteq> s \<and> next_ref w \<le> r
             \<longrightarrow> bufs w' r = replicate (length (bufs w' r)) 0)
      \<and> csprng w' = (case arg_salt args of Some r \<Rightarrow> csprng w | None \<Rightarrow> (\<lambda>i. csprng w (i + 32)))
      \<and> heap_brk w' = heap_brk w + length (prehash C pw (salt_used args w))
                          + length (salt_used args w) + default 32 (arg_outputLength args)
      \<and> argon2Instance w'
      \<and> (\<forall>a. heap_brk w \<le> a \<and> a < heap_brk w' \<longrightarrow> HEAPU8 w' a = 0)
      \<and> (\<forall>a. a < heap_brk w \<longrightarrow> HEAPU8 w' a = HEAPU8 w a)"
proof (cases "arg_salt args")
  case (Some r)
  then have r: "r < next_ref w" using live by simp
  from run Some have b: "deriveKey_body C (arg_password args) r (default 64 (arg_memoryMB args))
       (default 3 (arg_iterations args)) (default 1 (arg_parallelism args))
       (default 32 (arg_outputLength args)) (arg_wasmPath args) w = (Inr (k, s), w')"
    by (simp add: deriveKey_unfold)
  from deriveKey_body_Inr[OF b r] Some r show ?thesis
    by (auto simp: salt_used_def)
next
  case None
  obtain w0 where w0: "bind_salt None w = (next_ref w, w0)"
     "bufs w0 = (bufs w)(next_ref w := map (csprng w) [0..<32])"
     "next_ref w0 = Suc (next_ref w)" "csprng w0 = (\<lambda>i. csprng w (i + 32))"
     "HEAPU8 w0 = HEAPU8 w" "heap_brk w0 = heap_brk w" "argon2Instance w0 = argon2Instance w"
    using bind_salt_None[of w] by blast
  from run None w0(1) have b: "deriveKey_body C (arg_password args) (next_ref w)
       (default 64 (arg_memoryMB args))
       (default 3 (arg_iterations args)) (default 1 (arg_parallelism args))
       (default 32 (arg_outputLength args)) (arg_wasmPath args) w0 = (Inr (k, s), w')"
    by (simp add: deriveKey_unfold)
  have r: "next_ref w < next_ref w0" by (simp add: w0)
  have hs: "HEAPU8_slice a b w0 = HEAPU8_slice a b w" for a b
    by (simp add: HEAPU8_slice_def w0)
  from deriveKey_body_Inr[OF b r] None show ?thesis
    by (auto simp: salt_used_def w0 hs)
qed

lemma deriveKey_succeeds:
  assumes "arg_password args = JSString pw" "pw \<noteq> []"
    and live: "\<forall>r. arg_salt args = Some r \<longrightarrow> r < next_ref w"
    and "argon2Instance w \<or> fetch_ok C (default ''./argon2.wasm'' (arg_wasmPath args))"
    and "fst (kdf C pw (salt_used args w) (default 64 (arg_memoryMB args))
           (default 3 (arg_iterations args)) (default 1 (arg_parallelism args))
           (default 32 (arg_outputLength args))) = 0"
  shows "\<exists>k s w'. deriveKey C args w = (Inr (k, s), w')"
proof -
  obtain s w0 where w0: "bind_salt (arg_salt args) w = (s, w0)" by force
  have f: "s < next_ref w0 \<and> bufs w0 s = salt_used args w
          \<and> argon2Instance w0 = argon2Instance w"
  proof (cases "arg_salt args")
    case None
    then show ?thesis using w0 bind_salt_None[of w] by (auto simp: salt_used_def)
  next
    case (Some r)
    then show ?thesis using w0 live by (auto simp: salt_used_def)
  qed
  obtain out where k: "argon2id_hash_raw C (default 3 (arg_iterations args))
        (default 64 (arg_memoryMB args) * 1024) (default 1 (arg_parallelism args))
        (prehash C pw (bufs w0 s)) (bufs w0 s) (default 32 (arg_outputLength args)) = (0, out)"
    using assms(5) f by (cases "argon2id_hash_raw C (default 3 (arg_iterations args))
        (default 64 (arg_memoryMB args) * 1024) (default 1 (arg_parallelism args))
        (prehash C pw (bufs w0 s)) (bufs w0 s) (default 32 (arg_outputLength args))")
       (auto simp: kdf_def)
  have l: "argon2Instance w0 \<or> fetch_ok C (default ''./argon2.wasm'' (arg_wasmPath args))"
    using assms(4) f by simp
  from deriveKey_body_succeeds[OF assms(2) _ l refl refl k] f
  show ?thesis
    using assms(1) w0 by (auto simp: deriveKey_unfold)
qed

lemma argon2_fills_kdf:
  "argon2_fills C \<Longrightarrow> kdf C pw S mem it par n = (0, out) \<Longrightarrow> length out = n"
proof -
  assume f: "argon2_fills C" and k: "kdf C pw S mem it par n = (0, out)"
  from f have "fst (argon2id_hash_raw C it (mem * 1024) par (prehash C pw S) S n) = 0
      \<longrightarrow> length (snd (argon2id_hash_raw C it (mem * 1024) par (prehash C pw S) S n)) = n"
    unfolding argon2_fills_def by blast
  with k show ?thesis by (simp add: kdf_def)
qed

text \<open>\<open>deriveKey\<close> refines the function of the specification.\<close>

lemma deriveKey_refines:
  assumes fills: "argon2_fills C"
    and live: "\<forall>r. arg_salt args = Some r \<longrightarrow> r < next_ref w"
  shows "derived_key (deriveKey C args w) =
           deriveKey_spec C (loadable C w (arg_wasmPath args)) (arg_password args)
             (salt_used args w) (default 64 (arg_memoryMB args))
             (default 3 (arg_iterations args)) (default 1 (arg_parallelism args))
             (default 32 (arg_outputLength args))"
proof (cases "deriveKey C args w")
  case (Pair res w')
  show ?thesis
  proof (cases res)
    case (Inr ks)
    obtain k s where ks: "ks = (k, s)" by (cases ks)
    from deriveKey_Inr[OF Pair[unfolded Inr ks] live] obtain pw out where
      f: "arg_password args = JSString pw" "pw \<noteq> []"
         "argon2Instance w \<or> fetch_ok C (default ''./argon2.wasm'' (arg_wasmPath args))"
         "kdf C pw (salt_used args w) (default 64 (arg_memoryMB args))
           (default 3 (arg_iterations args)) (default 1 (arg_parallelism args))
           (default 32 (arg_outputLength args)) = (0, out)"
         "bufs w' k = take (default 32 (arg_outputLength args)) out @
            HEAPU8_slice (heap_brk w + length (prehash C pw (salt_used args w))
                            + length (salt_used args w) + length out)
                         (heap_brk w + length (prehash C pw (salt_used args w))
                            + length (salt_used args w) + default 32 (arg_outputLength args)) w"
      by blast
    have "length out = default 32 (arg_outputLength args)"
      using argon2_fills_kdf[OF fills f(4)] .
    with f show ?thesis
      by (simp add: Pair Inr ks derived_key_def deriveKey_spec_def loadable_def)
  next
    case (Inl e)
    obtain s w0 where w0: "bind_salt (arg_salt args) w = (s, w0)" by force
    have f: "s < next_ref w0 \<and> bufs w0 s = salt_used args w
          \<and> argon2Instance w0 = argon2Instance w"
    proof (cases "arg_salt args")
      case None
      then show ?thesis using w0 bind_salt_None[of w] by (auto simp: salt_used_def)
    next
      case (Some r)
      then show ?thesis using w0 live by (auto simp: salt_used_def)
    qed
    let ?mem = "default 64 (arg_memoryMB args)" and ?it = "default 3 (arg_iterations args)"
    let ?par = "default 1 (arg_parallelism args)" and ?n = "default 32 (arg_outputLength args)"
    have b: "deriveKey_body C (arg_password args) s ?mem ?it ?par ?n (arg_wasmPath args) w0
               = (Inl e, w')"
      using Pair Inl w0 by (simp add: deriveKey_unfold)
    show ?thesis
    proof (cases "\<exists>pw. arg_password args = JSString pw \<and> pw \<noteq> []")
      case False
      then have "e = ValidationError"
        using b deriveKey_body_invalid[of "arg_password args" C s ?mem ?it ?par ?n "arg_wasmPath args" w0]
        by auto
      with False show ?thesis
        by (auto simp: Pair Inl derived_key_def deriveKey_spec_def split: js_value.splits)
    next
      case True
      then obtain pw where pw: "arg_password args = JSString pw" "pw \<noteq> []" by blast
      show ?thesis
      proof (cases "argon2Instance w0 \<or> fetch_ok C (default ''./argon2.wasm'' (arg_wasmPath args))")
        case False
        with deriveKey_body_load_fails[OF pw(2) conjunct1[OF f], of C "arg_wasmPath args" ?mem ?it ?par ?n]
        have "e = DerivationError" using b pw(1) by auto
        with False pw f show ?thesis
          by (simp add: Pair Inl derived_key_def deriveKey_spec_def loadable_def)
      next
        case load: True
        obtain st out where k: "argon2id_hash_raw C ?it (?mem * 1024) ?par
            (prehash C pw (bufs w0 s)) (bufs w0 s) ?n = (st, out)" by force
        have st: "st \<noteq> 0"
          using deriveKey_body_succeeds[OF pw(2) conjunct1[OF f] load refl refl, of ?it ?mem ?par ?n out]
            k b pw(1) by auto
        with deriveKey_body_argon2_fails[OF pw(2) conjunct1[OF f] load refl refl k]
        have "e = DerivationError" using b pw(1) by auto
        with load pw f k st show ?thesis
          by (simp add: Pair Inl derived_key_def deriveKey_spec_def loadable_def kdf_def)
      qed
    qed
  qed
qed

lemma deriveKey_spec_Inr:
  assumes "deriveKey_spec C init password S mem it par n = Inr k"
  shows "\<exists>pw. password = JSString pw \<and> pw \<noteq> [] \<and> init \<and> kdf C pw S mem it par n = (0, k)"
  using assms
  by (auto simp: deriveKey_spec_def split: js_value.splits if_splits prod.splits)

section \<open>Constant-time comparison and the self-test\<close>

lemma xor_byte_zero: "(x :: byte) XOR y = 0 \<longleftrightarrow> x = y"
  by (metis xor.right_neutral xor_self_eq xor.assoc xor.left_neutral)

lemma fold_or_zero:
  "fold (\<lambda>i diff. diff OR f i) xs (d :: byte) = 0 \<longleftrightarrow> d = 0 \<and> (\<forall>i\<in>set xs. f i = 0)"
proof (induction xs arbitrary: d)
  case Nil
  show ?case by simp
next
  case (Cons x xs)
  have "d OR f x = 0 \<longleftrightarrow> d = 0 \<and> f x = 0" by (rule or_eq_0_iff)
  then show ?case using Cons.IH[of "d OR f x"] by simp
qed

lemma constantTimeEqual_iff: "constantTimeEqual a b \<longleftrightarrow> a = b"
proof (cases "length a = length b")
  case False
  then show ?thesis by (auto simp: constantTimeEqual_def)
next
  case True
  have "constantTimeEqual a b \<longleftrightarrow> (\<forall>i<length a. a ! i = b ! i)"
    using True by (auto simp: constantTimeEqual_def fold_or_zero xor_byte_zero)
  also have "\<dots> \<longleftrightarrow> a = b"
    using True by (metis nth_equalityI)
  finally show ?thesis .
qed

lemma selfTest_passes:
  assumes fills: "argon2_fills C" and run: "selfTest C w = (Inr ok, w')"
  shows "ok"
proof -
  obtain w1 where sr: "secureRandom 32 w = (next_ref w, w1)"
    and n1: "next_ref w1 = Suc (next_ref w)"
    using secureRandom_run[of 32 w] by blast
  let ?args = "\<lparr>arg_password = JSString ''self-test-password'', arg_salt = Some (next_ref w),
                  arg_memoryMB = None, arg_iterations = None, arg_parallelism = None,
                  arg_outputLength = None, arg_wasmPath = None\<rparr>"
  have l1: "\<forall>r. arg_salt ?args = Some r \<longrightarrow> r < next_ref w1" by (simp add: n1)
  obtain r2 w2 where d1: "deriveKey C ?args w1 = (r2, w2)" by force
  obtain r3 w3 where d2: "deriveKey C ?args w2 = (r3, w3)" by force
  from run sr d1 obtain a_key a_salt where r2: "r2 = Inr (a_key, a_salt)"
    by (cases r2) (auto simp: selfTest_def Let_def)
  from run sr d1 d2 r2 obtain b_key b_salt where r3: "r3 = Inr (b_key, b_salt)"
    by (cases r3) (auto simp: selfTest_def Let_def)
  from run sr d1 d2 r2 r3 have ok: "ok = constantTimeEqual (bufs w3 a_key) (bufs w3 b_key)"
    by (auto simp: selfTest_def Let_def)
  from deriveKey_Inr[OF d1[unfolded r2] l1] have
    A: "argon2Instance w2" "a_key < next_ref w2" "next_ref w1 \<le> next_ref w2"
       "\<forall>r<next_ref w1. bufs w2 r = bufs w1 r"
       "argon2Instance w1 \<or> fetch_ok C (default ''./argon2.wasm'' (arg_wasmPath ?args))"
    by auto
  have l2: "\<forall>r. arg_salt ?args = Some r \<longrightarrow> r < next_ref w2" using A(3) by (simp add: n1)
  from deriveKey_Inr[OF d2[unfolded r3] l2] have
    B: "\<forall>r<next_ref w2. bufs w3 r = bufs w2 r" by auto
  have s: "salt_used ?args w2 = salt_used ?args w1"
    using A(4) by (simp add: salt_used_def n1)
  have ld: "loadable C w2 (arg_wasmPath ?args) = loadable C w1 (arg_wasmPath ?args)"
    using A(1,5) by (simp add: loadable_def)
  have "derived_key (deriveKey C ?args w1) = derived_key (deriveKey C ?args w2)"
    unfolding deriveKey_refines[OF fills l1] deriveKey_refines[OF fills l2] s ld ..
  then have "bufs w2 a_key = bufs w3 b_key"
    by (simp add: d1 d2 r2 r3 derived_key_def)
  moreover have "bufs w3 a_key = bufs w2 a_key" using A(2) B by simp
  ultimately show ?thesis by (simp add: ok constantTimeEqual_iff)
qed

section \<open>The file key\<close>

lemma file_key_Inr:
  assumes run: "deriveKey C \<lparr>arg_password = password, arg_salt = Some salt,
                   arg_memoryMB = Some 128, arg_iterations = Some 3,
                   arg_parallelism = Some 1, arg_outputLength = None,
                   arg_wasmPath = None\<rparr> w = (Inr (key, s'), w')"
    and fills: "argon2_fills C" and live: "salt < next_ref w"
  shows "\<exists>k. deriveKey_spec C (loadable C w None) password (bufs w salt) 128 3 1 32 = Inr k
      \<and> length k = 32 \<and> bufs w' key = k \<and> s' = salt
      \<and> salt < key \<and> key < next_ref w' \<and> next_ref w \<le> key \<and> next_ref w \<le> next_ref w'
      \<and> (\<forall>r<next_ref w. bufs w' r = bufs w r)
      \<and> (\<forall>r. r < next_ref w' \<and> r \<noteq> key \<and> next_ref w \<le> r
             \<longrightarrow> bufs w' r = replicate (length (bufs w' r)) 0)
      \<and> csprng w' = csprng w \<and> argon2Instance w'"
proof -
  let ?args = "\<lparr>arg_password = password, arg_salt = Some salt,
                   arg_memoryMB = Some 128, arg_iterations = Some 3,
                   arg_parallelism = Some 1, arg_outputLength = None,
                   arg_wasmPath = None\<rparr>"
  have l: "\<forall>r. arg_salt ?args = Some r \<longrightarrow> r < next_ref w" using live by simp
  from deriveKey_Inr[OF run l] obtain pw out where
    f: "password = JSString pw" "pw \<noteq> []"
       "argon2Instance w \<or> fetch_ok C ''./argon2.wasm''"
       "kdf C pw (bufs w salt) 128 3 1 32 = (0, out)"
       "bufs w' key = take 32 out @ HEAPU8_slice
           (heap_brk w + length (prehash C pw (bufs w salt)) + length (bufs w salt) + length out)
           (heap_brk w + length (prehash C pw (bufs w salt)) + length (bufs w salt) + 32) w"
    and g: "s' = salt" "salt < key" "key < next_ref w'" "next_ref w \<le> key"
       "next_ref w \<le> next_ref w'" "\<forall>r<next_ref w. bufs w' r = bufs w r"
       "\<forall>r. r < next_ref w' \<and> r \<noteq> key \<and> r \<noteq> s' \<and> next_ref w \<le> r
             \<longrightarrow> bufs w' r = replicate (length (bufs w' r)) 0"
       "csprng w' = csprng w" "argon2Instance w'"
    by (auto simp: salt_used_def)
  have len: "length out = 32" using argon2_fills_kdf[OF fills f(4)] .
  have "deriveKey_spec C (loadable C w None) password (bufs w salt) 128 3 1 32 = Inr out"
    using f by (simp add: deriveKey_spec_def loadable_def)
  moreover have "bufs w' key = out" using f(5) len by simp
  moreover have "\<forall>r. r < next_ref w' \<and> r \<noteq> key \<and> next_ref w \<le> r
             \<longrightarrow> bufs w' r = replicate (length (bufs w' r)) 0"
    using g(7) g(1) live by auto
  ultimately show ?thesis using len g by blast
qed

lemma file_key_succeeds:
  assumes spec: "deriveKey_spec C (loadable C w None) password (bufs w salt) 128 3 1 32 = Inr k"
    and fills: "argon2_fills C" and live: "salt < next_ref w"
  shows "\<exists>key w'. deriveKey C \<lparr>arg_password = password, arg_salt = Some salt,
                   arg_memoryMB = Some 128, arg_iterations = Some 3,
                   arg_parallelism = Some 1, arg_outputLength = None,
                   arg_wasmPath = None\<rparr> w = (Inr (key, salt), w')
      \<and> length k = 32 \<and> bufs w' key = k
      \<and> salt < key \<and> key < next_ref w' \<and> next_ref w \<le> key \<and> next_ref w \<le> next_ref w'
      \<and> (\<forall>r<next_ref w. bufs w' r = bufs w r)
      \<and> csprng w' = csprng w \<and> argon2Instance w'"
proof -
  let ?args = "\<lparr>arg_password = password, arg_salt = Some salt,
                   arg_memoryMB = Some 128, arg_iterations = Some 3,
                   arg_parallelism = Some 1, arg_outputLength = None,
                   arg_wasmPath = None\<rparr>"
  from deriveKey_spec_Inr[OF spec] obtain pw where
    pw: "password = JSString pw" "pw \<noteq> []" "loadable C w None"
        "kdf C pw (bufs w salt) 128 3 1 32 = (0, k)" by blast
  have "\<exists>key s w'. deriveKey C ?args w = (Inr (key, s), w')"
    by (rule deriveKey_succeeds[where pw = pw])
       (use pw live in \<open>simp_all add: salt_used_def loadable_def\<close>)
  then obtain key s w' where run: "deriveKey C ?args w = (Inr (key, s), w')" by blast
  from file_key_Inr[OF run fills live] spec run show ?thesis by auto
qed

section \<open>The loops of encryptFile and decryptFile\<close>

lemma encryptFile_step:
  "encryptFile_loop C key (chunk # rest) encryptedChunks w
     = encryptFile_loop C key rest
          (encryptedChunks @ [\<lparr>rec_cipherChunk = Suc (next_ref w), rec_nonce = next_ref w\<rparr>])
          (snd (encryptFileChunk C key chunk (next_ref w) (snd (randomBytes 24 w))))"
  by (simp add: randomBytes_def alloc_def getRandomValues_def Let_def encryptFileChunk_def)

lemma encryptFile_step_world:
  assumes "w' = snd (encryptFileChunk C key chunk (next_ref w) (snd (randomBytes 24 w)))"
    and "key < next_ref w"
  shows "bufs w' = (bufs w)(next_ref w := map (csprng w) [0..<24],
           Suc (next_ref w) := subtle_encrypt C ''XChaCha20-Poly1305'' (bufs w key)
              (map (csprng w) [0..<24]) chunk)"
    and "next_ref w' = Suc (Suc (next_ref w))"
    and "csprng w' = (\<lambda>i. csprng w (i + 24))"
    and "HEAPU8 w' = HEAPU8 w" "heap_brk w' = heap_brk w" "argon2Instance w' = argon2Instance w"
  using assms
  by (simp_all add: randomBytes_def alloc_def getRandomValues_def Let_def encryptFileChunk_def)

lemma encryptFile_loop_run:
  assumes "key < next_ref w"
  shows "\<exists>recs w'. encryptFile_loop C key chunks acc w = (Inr (acc @ recs), w')
     \<and> list_all2 (sealed C (bufs w key) w') recs chunks
     \<and> map (\<lambda>r. bufs w' (rec_nonce r)) recs = map (nonce_block w 0) [0..<length chunks]
     \<and> (\<forall>r\<in>set recs. next_ref w \<le> rec_nonce r \<and> next_ref w \<le> rec_cipherChunk r)
     \<and> distinct (map rec_nonce recs)
     \<and> next_ref w \<le> next_ref w'
     \<and> (\<forall>r<next_ref w. bufs w' r = bufs w r)
     \<and> csprng w' = (\<lambda>j. csprng w (j + 24 * length chunks))
     \<and> HEAPU8 w' = HEAPU8 w \<and> heap_brk w' = heap_brk w \<and> argon2Instance w' = argon2Instance w"
  using assms
proof (induction chunks arbitrary: acc w)
  case Nil
  then show ?case by simp
next
  case (Cons chunk rest)
  let ?r = "\<lparr>rec_cipherChunk = Suc (next_ref w), rec_nonce = next_ref w\<rparr>"
  obtain w2 where
    step: "encryptFile_loop C key (chunk # rest) acc w = encryptFile_loop C key rest (acc @ [?r]) w2"
    and b2: "bufs w2 = (bufs w)(next_ref w := map (csprng w) [0..<24],
           Suc (next_ref w) := subtle_encrypt C ''XChaCha20-Poly1305'' (bufs w key)
              (map (csprng w) [0..<24]) chunk)"
    and n2: "next_ref w2 = Suc (Suc (next_ref w))"
    and c2: "csprng w2 = (\<lambda>i. csprng w (i + 24))"
    and o2: "HEAPU8 w2 = HEAPU8 w" "heap_brk w2 = heap_brk w" "argon2Instance w2 = argon2Instance w"
    using encryptFile_step[of C key chunk rest acc w]
      encryptFile_step_world[OF refl Cons.prems, of C chunk] by blast
  have k2: "key < next_ref w2" "bufs w2 key = bufs w key"
    using Cons.prems by (simp_all add: n2 b2)
  from Cons.IH[OF k2(1), of "acc @ [?r]"] obtain recs w' where
    run: "encryptFile_loop C key rest (acc @ [?r]) w2 = (Inr ((acc @ [?r]) @ recs), w')"
    and s: "list_all2 (sealed C (bufs w2 key) w') recs rest"
    and nb: "map (\<lambda>r. bufs w' (rec_nonce r)) recs = map (nonce_block w2 0) [0..<length rest]"
    and rg: "\<forall>r\<in>set recs. next_ref w2 \<le> rec_nonce r \<and> next_ref w2 \<le> rec_cipherChunk r"
    and dn: "distinct (map rec_nonce recs)"
    and le: "next_ref w2 \<le> next_ref w'"
    and fr: "\<forall>r<next_ref w2. bufs w' r = bufs w2 r"
    and cs: "csprng w' = (\<lambda>j. csprng w2 (j + 24 * length rest))"
    and ot: "HEAPU8 w' = HEAPU8 w2" "heap_brk w' = heap_brk w2" "argon2Instance w' = argon2Instance w2"
    by blast
  have nb': "nonce_block w2 0 i = nonce_block w 0 (Suc i)" for i
    by (simp add: nonce_block_def c2 add.commute add.left_commute)
  have first: "sealed C (bufs w key) w' ?r chunk"
    using fr le by (simp add: sealed_def n2 b2)
  have n0: "bufs w' (next_ref w) = nonce_block w 0 0"
    using fr by (simp add: n2 b2 nonce_block_def)
  have "map (nonce_block w 0) [0..<length (chunk # rest)] =
        nonce_block w 0 0 # map (nonce_block w2 0) [0..<length rest]"
    by (simp add: nb' upt_conv_Cons map_Suc_upt[symmetric] del: upt_Suc)
  moreover have "\<forall>r<next_ref w. bufs w' r = bufs w r"
    using fr by (simp add: n2 b2)
  ultimately show ?case
    apply (intro exI[of _ "?r # recs"] exI[of _ w'])
    using step run s nb rg dn le first n0 cs ot
    apply (simp add: k2 n2 c2 o2 add.assoc)
    apply (auto simp: fun_eq_iff add.commute add.left_commute)
    done
qed

lemma decryptFileChunk_run:
  "decryptFileChunk C key (rec_cipherChunk r) (rec_nonce r) w =
     (case opens C (bufs w key) w r of
        None \<Rightarrow> (Inl AuthenticationError, w)
      | Some p \<Rightarrow> (Inr (next_ref w),
                    w\<lparr>bufs := (bufs w)(next_ref w := p), next_ref := Suc (next_ref w)\<rparr>))"
  by (simp add: decryptFileChunk_def opens_def alloc_def split: option.splits)

text \<open>The loop stops at the first record that does not authenticate.\<close>

lemma decryptFile_loop_rejects:
  assumes "opens C (bufs w key) w r = None"
  shows "decryptFile_loop C key (r # rest) acc w = (Inl AuthenticationError, w)"
  using assms by (simp add: decryptFileChunk_run)

lemma decryptFile_loop_accepts:
  assumes "opens C (bufs w key) w r = Some p"
  shows "decryptFile_loop C key (r # rest) acc w =
           decryptFile_loop C key rest (acc @ [next_ref w])
             (w\<lparr>bufs := (bufs w)(next_ref w := p), next_ref := Suc (next_ref w)\<rparr>)"
  using assms by (simp add: decryptFileChunk_run)

lemma opens_frame:
  assumes "live w r" "\<forall>x<next_ref w. bufs w' x = bufs w x"
  shows "opens C k w' r = opens C k w r"
  using assms by (simp add: opens_def live_def)

lemma decryptFile_loop_run:
  assumes "key < next_ref w"
    and "list_all2 (\<lambda>r c. live w r \<and> opens C (bufs w key) w r = Some c) recs chunks"
  shows "\<exists>out w'. decryptFile_loop C key recs acc w = (Inr (acc @ out), w')
     \<and> map (bufs w') out = chunks
     \<and> (\<forall>x\<in>set out. next_ref w \<le> x)
     \<and> next_ref w' = next_ref w + length recs
     \<and> (\<forall>x<next_ref w. bufs w' x = bufs w x)
     \<and> csprng w' = csprng w
     \<and> HEAPU8 w' = HEAPU8 w \<and> heap_brk w' = heap_brk w \<and> argon2Instance w' = argon2Instance w"
  using assms
proof (induction recs arbitrary: acc w chunks)
  case Nil
  then show ?case by simp
next
  case (Cons r rest)
  then obtain c cs where ch: "chunks = c # cs" and o: "opens C (bufs w key) w r = Some c"
    and tl: "list_all2 (\<lambda>r c. live w r \<and> opens C (bufs w key) w r = Some c) rest cs"
    by (auto simp: list_all2_Cons1)
  let ?w1 = "w\<lparr>bufs := (bufs w)(next_ref w := c), next_ref := Suc (next_ref w)\<rparr>"
  have fr1: "\<forall>x<next_ref w. bufs ?w1 x = bufs w x" by simp
  have k1: "key < next_ref ?w1" "bufs ?w1 key = bufs w key" using Cons.prems(1) by simp_all
  have tl1: "list_all2 (\<lambda>r c. live ?w1 r \<and> opens C (bufs ?w1 key) ?w1 r = Some c) rest cs"
  proof (rule list_all2_mono[OF tl])
    fix r' c' assume a: "live w r' \<and> opens C (bufs w key) w r' = Some c'"
    then have "live ?w1 r'" by (simp add: live_def)
    moreover have "opens C (bufs ?w1 key) ?w1 r' = Some c'"
      using a opens_frame[OF _ fr1, of r' C "bufs w key"] k1(2) by simp
    ultimately show "live ?w1 r' \<and> opens C (bufs ?w1 key) ?w1 r' = Some c'" by simp
  qed
  from Cons.IH[OF k1(1) tl1, of "acc @ [next_ref w]"] obtain out w' where
    run: "decryptFile_loop C key rest (acc @ [next_ref w]) ?w1 = (Inr ((acc @ [next_ref w]) @ out), w')"
    and m: "map (bufs w') out = cs"
    and ge: "\<forall>x\<in>set out. next_ref ?w1 \<le> x"
    and n: "next_ref w' = next_ref ?w1 + length rest"
    and fr: "\<forall>x<next_ref ?w1. bufs w' x = bufs ?w1 x"
    and ot: "csprng w' = csprng ?w1" "HEAPU8 w' = HEAPU8 ?w1" "heap_brk w' = heap_brk ?w1"
      "argon2Instance w' = argon2Instance ?w1"
    by blast
  have "bufs w' (next_ref w) = c" using fr by simp
  moreover have "\<forall>x<next_ref w. bufs w' x = bufs w x" using fr by simp
  ultimately show ?case
    apply (intro exI[of _ "next_ref w # out"] exI[of _ w'])
    using run m ge n ot ch decryptFile_loop_accepts[OF o, of rest acc]
    apply simp
    apply (auto simp: Suc_le_eq less_imp_le)
    done
qed

lemma live_mono: "live w r \<Longrightarrow> next_ref w \<le> next_ref w' \<Longrightarrow> live w' r"
  by (simp add: live_def)

lemma decryptFile_loop_cut:
  assumes "key < next_ref w" "\<forall>r\<in>set (pre @ bad # post). live w r"
    and "\<forall>r\<in>set pre. opens C (bufs w key) w r \<noteq> None"
    and "opens C (bufs w key) w bad = None"
  shows "\<exists>w'. decryptFile_loop C key (pre @ bad # post) acc w = (Inl AuthenticationError, w')
     \<and> decryptFile_loop C key (pre @ [bad]) acc w = (Inl AuthenticationError, w')
     \<and> next_ref w' = next_ref w + length pre"
  using assms
proof (induction pre arbitrary: acc w)
  case Nil
  then show ?case by (simp add: decryptFileChunk_run)
next
  case (Cons r pre)
  then obtain p where p: "opens C (bufs w key) w r = Some p" by auto
  let ?w1 = "w\<lparr>bufs := (bufs w)(next_ref w := p), next_ref := Suc (next_ref w)\<rparr>"
  have fr: "\<forall>x<next_ref w. bufs ?w1 x = bufs w x" by simp
  have k1: "key < next_ref ?w1" "bufs ?w1 key = bufs w key" using Cons.prems(1) by simp_all
  have l1: "\<forall>r\<in>set (pre @ bad # post). live ?w1 r"
  proof
    fix x assume "x \<in> set (pre @ bad # post)"
    then have "live w x" using Cons.prems(2) by auto
    then show "live ?w1 x" by (rule live_mono) simp
  qed
  have o: "opens C (bufs ?w1 key) ?w1 x = opens C (bufs w key) w x" if "live w x" for x
    using opens_frame[OF that fr] k1(2) by simp
  have a: "\<forall>r\<in>set pre. opens C (bufs ?w1 key) ?w1 r \<noteq> None"
    using Cons.prems(2,3) o by auto
  have b: "opens C (bufs ?w1 key) ?w1 bad = None"
    using Cons.prems(2,4) o by auto
  from Cons.IH[OF k1(1) l1 a b, of "acc @ [next_ref w]"]
  show ?case
    using decryptFile_loop_accepts[OF p, of "pre @ bad # post" acc]
      decryptFile_loop_accepts[OF p, of "pre @ [bad]" acc]
    by auto
qed

lemma decryptFile_loop_frame:
  "(\<forall>x<next_ref w. bufs (snd (decryptFile_loop C key recs acc w)) x = bufs w x)
   \<and> next_ref w \<le> next_ref (snd (decryptFile_loop C key recs acc w))"
proof (induction recs arbitrary: acc w)
  case Nil
  then show ?case by simp
next
  case (Cons r recs)
  show ?case
  proof (cases "opens C (bufs w key) w r")
    case None
    then show ?thesis by (simp add: decryptFileChunk_run)
  next
    case (Some p)
    let ?w1 = "w\<lparr>bufs := (bufs w)(next_ref w := p), next_ref := Suc (next_ref w)\<rparr>"
    from Cons.IH[of ?w1 "acc @ [next_ref w]"] show ?thesis
      by (simp add: decryptFileChunk_run Some)
  qed
qed

section \<open>encryptFile and decryptFile\<close>

lemma sealed_frame:
  assumes "sealed C k w r c" "\<forall>x<next_ref w. x \<noteq> key \<longrightarrow> bufs w' x = bufs w x"
    "rec_cipherChunk r \<noteq> key" "rec_nonce r \<noteq> key" "next_ref w \<le> next_ref w'"
  shows "sealed C k w' r c"
  using assms by (auto simp: sealed_def)

lemma nonce_block_shift:
  "csprng w' = (\<lambda>i. csprng w (i + n)) \<Longrightarrow> nonce_block w' 0 i = nonce_block w n i"
  by (simp add: nonce_block_def add.commute add.left_commute)

lemma nonce_block_length [simp]: "length (nonce_block w off i) = 24"
  by (simp add: nonce_block_def)

lemma encryptFile_Inr:
  assumes run: "encryptFile C file password chunkSize w = (Inr (recs, salt), w1)"
    and fills: "argon2_fills C"
  shows "\<exists>k key. deriveKey_spec C (loadable C w None) password (map (csprng w) [0..<32]) 128 3 1 32 = Inr k
      \<and> length k = 32
      \<and> salt = next_ref w \<and> bufs w1 salt = map (csprng w) [0..<32]
      \<and> list_all2 (sealed C k w1) recs file
      \<and> map (\<lambda>r. bufs w1 (rec_nonce r)) recs = map (nonce_block w 32) [0..<length file]
      \<and> distinct (map rec_nonce recs)
      \<and> salt < key \<and> key < next_ref w1
      \<and> (\<forall>r\<in>set recs. key < rec_nonce r \<and> key < rec_cipherChunk r)
      \<and> (\<forall>r. next_ref w \<le> r \<and> r \<le> key \<and> r \<noteq> salt
             \<longrightarrow> bufs w1 r = replicate (length (bufs w1 r)) 0)
      \<and> (\<forall>r<next_ref w. bufs w1 r = bufs w r)
      \<and> argon2Instance w1"
proof -
  obtain wA where
    rb: "randomBytes 32 w = (Inr (next_ref w), wA)"
    and A: "bufs wA = (bufs w)(next_ref w := map (csprng w) [0..<32])"
       "next_ref wA = Suc (next_ref w)" "csprng wA = (\<lambda>i. csprng w (i + 32))"
       "argon2Instance wA = argon2Instance w"
    using randomBytes_run[of 32 w] by auto
  let ?s = "next_ref w"
  let ?args = "\<lparr>arg_password = password, arg_salt = Some ?s,
                   arg_memoryMB = Some 128, arg_iterations = Some 3,
                   arg_parallelism = Some 1, arg_outputLength = None,
                   arg_wasmPath = None\<rparr>"
  obtain resB wB where dk: "deriveKey C ?args wA = (resB, wB)" by force
  from run rb dk obtain key s' where rB: "resB = Inr (key, s')"
    by (cases resB) (auto simp: encryptFile_def generateFileKey_def split: prod.splits sum.splits)
  have sl: "?s < next_ref wA" by (simp add: A)
  from file_key_Inr[OF dk[unfolded rB] fills sl] obtain k where
    k: "deriveKey_spec C (loadable C wA None) password (bufs wA ?s) 128 3 1 32 = Inr k"
       "length k = 32" "bufs wB key = k" "?s < key" "key < next_ref wB"
       "next_ref wA \<le> key" "next_ref wA \<le> next_ref wB"
       "\<forall>r<next_ref wA. bufs wB r = bufs wA r"
       "\<forall>r. r < next_ref wB \<and> r \<noteq> key \<and> next_ref wA \<le> r
             \<longrightarrow> bufs wB r = replicate (length (bufs wB r)) 0"
       "csprng wB = csprng wA" "argon2Instance wB"
    by blast
  from encryptFile_loop_run[OF k(5), of C "file" "[]"] obtain rs wC where
    lp: "encryptFile_loop C key file [] wB = (Inr rs, wC)"
    and L: "list_all2 (sealed C (bufs wB key) wC) rs file"
       "map (\<lambda>r. bufs wC (rec_nonce r)) rs = map (nonce_block wB 0) [0..<length file]"
       "\<forall>r\<in>set rs. next_ref wB \<le> rec_nonce r \<and> next_ref wB \<le> rec_cipherChunk r"
       "distinct (map rec_nonce rs)" "next_ref wB \<le> next_ref wC"
       "\<forall>r<next_ref wB. bufs wC r = bufs wB r"
       "argon2Instance wC = argon2Instance wB"
    by auto
  from run rb dk rB lp have res: "recs = rs" "salt = ?s" "w1 = zeroize key wC"
    by (auto simp: encryptFile_def generateFileKey_def)
  have Z: "bufs w1 = (bufs wC)(key := replicate (length (bufs wC key)) 0)"
      "next_ref w1 = next_ref wC" "argon2Instance w1 = argon2Instance wC"
    by (simp_all add: res zeroize_def)
  have ne: "\<forall>r\<in>set rs. key < rec_nonce r \<and> key < rec_cipherChunk r"
    using L(3) k(5) by auto
  have s1: "list_all2 (sealed C k w1) rs file"
  proof (rule list.rel_mono_strong[OF L(1)[unfolded k(3)]])
    fix r c assume "r \<in> set rs" "sealed C k wC r c"
    then show "sealed C k w1 r c"
      using ne by (auto simp: sealed_def Z)
  qed
  have nb: "map (\<lambda>r. bufs w1 (rec_nonce r)) rs = map (nonce_block w 32) [0..<length file]"
  proof -
    have "map (\<lambda>r. bufs w1 (rec_nonce r)) rs = map (\<lambda>r. bufs wC (rec_nonce r)) rs"
      using ne by (auto simp: Z)
    moreover have "nonce_block wB 0 i = nonce_block w 32 i" for i
      by (rule nonce_block_shift) (simp add: k(10) A)
    ultimately show ?thesis using L(2) by simp
  qed
  have old: "\<forall>r<next_ref w. bufs w1 r = bufs w r"
    using L(6) k(8) k(4) k(7) by (auto simp: Z A)
  have sb: "bufs w1 ?s = map (csprng w) [0..<32]"
    using L(6) k(8) k(4) k(7) by (auto simp: Z A)
  have wiped: "\<forall>r. next_ref w \<le> r \<and> r \<le> key \<and> r \<noteq> ?s
             \<longrightarrow> bufs w1 r = replicate (length (bufs w1 r)) 0"
  proof (intro allI impI)
    fix r assume r: "next_ref w \<le> r \<and> r \<le> key \<and> r \<noteq> ?s"
    show "bufs w1 r = replicate (length (bufs w1 r)) 0"
    proof (cases "r = key")
      case True then show ?thesis by (simp add: Z)
    next
      case False
      with r have "r < next_ref wB" "next_ref wA \<le> r" using k(5) by (auto simp: A)
      with False k(9) L(6) show ?thesis by (auto simp: Z)
    qed
  qed
  have sp: "deriveKey_spec C (loadable C w None) password (map (csprng w) [0..<32]) 128 3 1 32 = Inr k"
    using k(1) by (simp add: A loadable_def)
  show ?thesis
    apply (intro exI[of _ k] exI[of _ key])
    using sp k(2) res(1,2) sb s1 nb L(4) k(4) L(5) k(5) ne wiped old L(7) k(11)
    by (auto simp: Z)
qed

lemma encryptFile_succeeds:
  assumes spec: "deriveKey_spec C (loadable C w None) password (map (csprng w) [0..<32]) 128 3 1 32 = Inr k"
    and fills: "argon2_fills C"
  shows "\<exists>recs salt w1. encryptFile C file password chunkSize w = (Inr (recs, salt), w1)"
proof -
  obtain wA where
    rb: "randomBytes 32 w = (Inr (next_ref w), wA)"
    and A: "bufs wA = (bufs w)(next_ref w := map (csprng w) [0..<32])"
       "next_ref wA = Suc (next_ref w)" "argon2Instance wA = argon2Instance w"
    using randomBytes_run[of 32 w] by auto
  have sp: "deriveKey_spec C (loadable C wA None) password (bufs wA (next_ref w)) 128 3 1 32 = Inr k"
    using spec by (simp add: A loadable_def)
  have sl: "next_ref w < next_ref wA" by (simp add: A)
  from file_key_succeeds[OF sp fills sl] obtain key wB where
    dk: "deriveKey C \<lparr>arg_password = password, arg_salt = Some (next_ref w),
                   arg_memoryMB = Some 128, arg_iterations = Some 3,
                   arg_parallelism = Some 1, arg_outputLength = None,
                   arg_wasmPath = None\<rparr> wA = (Inr (key, next_ref w), wB)"
    and kl: "key < next_ref wB" by blast
  from encryptFile_loop_run[OF kl, of C "file" "[]"] obtain rs wC where
    lp: "encryptFile_loop C key file [] wB = (Inr rs, wC)" by auto
  show ?thesis
    using rb dk lp by (simp add: encryptFile_def generateFileKey_def)
qed

lemma encryptFile_chunkSize_irrelevant:
  "encryptFile C file password chunkSize w = encryptFile C file password chunkSize' w"
  by (simp add: encryptFile_def)

lemma decryptFile_run:
  assumes spec: "deriveKey_spec C (loadable C w None) password (bufs w salt) 128 3 1 32 = Inr k"
    and fills: "argon2_fills C" and sl: "salt < next_ref w"
    and recs: "list_all2 (\<lambda>r c. live w r \<and> opens C k w r = Some c) recs chunks"
  shows "\<exists>out w'. decryptFile C recs password salt w = (Inr out, w')
     \<and> map (bufs w') out = chunks
     \<and> (\<forall>r<next_ref w. bufs w' r = bufs w r)"
proof -
  from file_key_succeeds[OF spec fills sl] obtain key wB where
    dk: "deriveKey C \<lparr>arg_password = password, arg_salt = Some salt,
                   arg_memoryMB = Some 128, arg_iterations = Some 3,
                   arg_parallelism = Some 1, arg_outputLength = None,
                   arg_wasmPath = None\<rparr> w = (Inr (key, salt), wB)"
    and B: "bufs wB key = k" "key < next_ref wB" "next_ref w \<le> key" "next_ref w \<le> next_ref wB"
       "\<forall>r<next_ref w. bufs wB r = bufs w r"
    by blast
  have rB: "list_all2 (\<lambda>r c. live wB r \<and> opens C (bufs wB key) wB r = Some c) recs chunks"
  proof (rule list_all2_mono[OF recs])
    fix r c assume a: "live w r \<and> opens C k w r = Some c"
    then have "live wB r" using B(4) by (auto simp: live_def)
    moreover have "opens C k wB r = opens C k w r"
      using a B(5) by (intro opens_frame) auto
    ultimately show "live wB r \<and> opens C (bufs wB key) wB r = Some c"
      using a B(1) by simp
  qed
  from decryptFile_loop_run[OF B(2) rB, of "[]"] obtain out wC where
    lp: "decryptFile_loop C key recs [] wB = (Inr out, wC)"
    and C: "map (bufs wC) out = chunks" "\<forall>x\<in>set out. next_ref wB \<le> x"
       "\<forall>x<next_ref wB. bufs wC x = bufs wB x"
    by auto
  have "map (bufs (zeroize key wC)) out = map (bufs wC) out"
    using C(2) B(2) by (auto simp: zeroize_def)
  moreover have "\<forall>r<next_ref w. bufs (zeroize key wC) r = bufs w r"
    using C(3) B(3,4,5) by (auto simp: zeroize_def)
  ultimately show ?thesis
    using C(1) dk lp by (simp add: decryptFile_def)
qed

lemma decryptFile_cut:
  assumes spec: "deriveKey_spec C (loadable C w None) password (bufs w salt) 128 3 1 32 = Inr k"
    and fills: "argon2_fills C" and sl: "salt < next_ref w"
    and lv: "\<forall>r\<in>set (pre @ bad # post). live w r"
    and ok: "\<forall>r\<in>set pre. opens C k w r \<noteq> None"
    and bad: "opens C k w bad = None"
  shows "\<exists>w'. decryptFile C (pre @ bad # post) password salt w = (Inl AuthenticationError, w')
       \<and> decryptFile C (pre @ [bad]) password salt w = (Inl AuthenticationError, w')"
proof -
  from file_key_succeeds[OF spec fills sl] obtain key wB where
    dk: "deriveKey C \<lparr>arg_password = password, arg_salt = Some salt,
                   arg_memoryMB = Some 128, arg_iterations = Some 3,
                   arg_parallelism = Some 1, arg_outputLength = None,
                   arg_wasmPath = None\<rparr> w = (Inr (key, salt), wB)"
    and B: "bufs wB key = k" "key < next_ref wB" "next_ref w \<le> key" "next_ref w \<le> next_ref wB"
       "\<forall>r<next_ref w. bufs wB r = bufs w r"
    by blast
  have l1: "\<forall>r\<in>set (pre @ bad # post). live wB r"
  proof
    fix x assume "x \<in> set (pre @ bad # post)"
    then have "live w x" using lv by auto
    then show "live wB x" using B(4) by (rule live_mono)
  qed
  have o: "opens C (bufs wB key) wB x = opens C k w x" if "live w x" for x
    using opens_frame[OF that B(5)] B(1) by simp
  have a: "\<forall>r\<in>set pre. opens C (bufs wB key) wB r \<noteq> None" using ok lv o by auto
  have b: "opens C (bufs wB key) wB bad = None" using bad lv o by auto
  from decryptFile_loop_cut[OF B(2) l1 a b, of "[]"] obtain w' where
    "decryptFile_loop C key (pre @ bad # post) [] wB = (Inl AuthenticationError, w')"
    "decryptFile_loop C key (pre @ [bad]) [] wB = (Inl AuthenticationError, w')"
    by blast
  then show ?thesis using dk by (simp add: decryptFile_def)
qed

lemma decryptFile_error_keeps_key:
  assumes spec: "deriveKey_spec C (loadable C w None) password (bufs w salt) 128 3 1 32 = Inr k"
    and fills: "argon2_fills C" and sl: "salt < next_ref w"
    and err: "fst (decryptFile C recs password salt w) = Inl e"
  shows "bufs (snd (decryptFile C recs password salt w)) (Suc (Suc (next_ref w))) = k"
proof -
  let ?args = "\<lparr>arg_password = password, arg_salt = Some salt,
                   arg_memoryMB = Some 128, arg_iterations = Some 3,
                   arg_parallelism = Some 1, arg_outputLength = None,
                   arg_wasmPath = None\<rparr>"
  from file_key_succeeds[OF spec fills sl] obtain key wB where
    dk: "deriveKey C ?args w = (Inr (key, salt), wB)"
    and B: "bufs wB key = k" "key < next_ref wB"
    by blast
  have "deriveKey_body C password salt 128 3 1 32 None w = (Inr (key, salt), wB)"
    using dk by (simp add: deriveKey_unfold)
  from deriveKey_body_Inr[OF this sl] have key: "key = Suc (Suc (next_ref w))" by blast
  obtain res wC where lp: "decryptFile_loop C key recs [] wB = (res, wC)" by force
  from err dk lp obtain e' where "res = Inl e'"
    by (cases res) (auto simp: decryptFile_def)
  then have "decryptFile C recs password salt w = (Inl e', wC)"
    using dk lp by (simp add: decryptFile_def)
  moreover have "bufs wC key = bufs wB key"
    using decryptFile_loop_frame[of wB C key recs "[]"] B(2) lp by simp
  ultimately show ?thesis using B(1) key by simp
qed

section \<open>The first app.js\<close>

lemma fixed_salt_bytes:
  "TextEncoder_encode ''sovereign-vault-salt'' =
     [115, 111, 118, 101, 114, 101, 105, 103, 110, 45, 118, 97, 117, 108, 116, 45, 115, 97, 108, 116]"
  by (simp add: TextEncoder_encode_def)

lemma encryptArrayBuffer_run:
  "encryptArrayBuffer C data password w =
     ((subtle_encrypt C ''AES-GCM'' (deriveKeyFromPassword C password) (map (csprng w) [0..<12]) data,
       next_ref w),
      w\<lparr>bufs := (bufs w)(next_ref w := map (csprng w) [0..<12]), next_ref := Suc (next_ref w),
        csprng := (\<lambda>i. csprng w (i + 12))\<rparr>)"
  by (simp add: encryptArrayBuffer_def alloc_def getRandomValues_def Let_def)

lemma decryptArrayBuffer_encryptArrayBuffer:
  assumes "aead_correct C"
    and "encryptArrayBuffer C data password w = ((encrypted, iv), w')"
  shows "decryptArrayBuffer C encrypted (bufs w' iv) password = Some data"
  using assms
  by (auto simp: encryptArrayBuffer_def decryptArrayBuffer_def alloc_def getRandomValues_def
        Let_def aead_correct_def)

section \<open>The container of the first crypto core, written and read back\<close>

lemma enc_dec: "of_char (char_of (unat (b :: byte))) = b"
proof -
  have "(of_char (char_of (unat b)) :: byte) = of_nat (of_char (char_of (unat b)))"
    by (simp only: of_nat_of_char)
  also have "\<dots> = of_nat (unat b mod 256)" by (simp only: of_char_of)
  also have "\<dots> = b"
    using unsigned_less[of b, where ?'a = nat] by simp
  finally show ?thesis .
qed

lemma dec_enc: "char_of (unat (of_char c :: byte)) = c"
proof -
  have "(of_char c :: byte) = of_nat (of_char c)" by (simp only: of_nat_of_char)
  then have "unat (of_char c :: byte) = of_char c mod 256"
    by (simp add: unat_of_nat)
  then show ?thesis by simp
qed

lemma TextDecoder_decode_iff:
  "TextDecoder_decode buffer = s \<longleftrightarrow> bytes_of buffer = TextEncoder_encode s"
  by (auto simp: TextDecoder_decode_def TextEncoder_encode_def enc_dec dec_enc comp_def)

lemma magic_bytes: "TextEncoder_encode VAULT_MAGIC = [0x53, 0x56, 0x4C, 0x54, 0x31]"
  by (simp add: TextEncoder_encode_def VAULT_MAGIC_def)

lemma parseHeader_createHeader:
  assumes "length salt = 32" "length nonce = 24"
  shows "parseHeader (ArrayBuffer (createHeader salt nonce @ body)) =
           Inr \<lparr>header_version = None, header_salt = ArrayBuffer salt,
                header_nonce = ArrayBuffer nonce, header_offset = 62\<rparr>"
    and "parseHeader (Uint8Array (createHeader salt nonce @ body)) =
           Inr \<lparr>header_version = Some HEADER_VERSION, header_salt = Uint8Array salt,
                header_nonce = Uint8Array nonce, header_offset = 62\<rparr>"
    and "drop 62 (createHeader salt nonce @ body) = body"
  using assms
  by (simp_all add: parseHeader_def createHeader_def magic_bytes
        TextDecoder_decode_iff Let_def nth_append)

text \<open>The version byte has no part in what \<open>parseHeader\<close> decides.\<close>

lemma parseHeader_any_version:
  "parseHeader (ArrayBuffer (TextEncoder_encode VAULT_MAGIC @ v # rest)) =
     Inr \<lparr>header_version = None, header_salt = ArrayBuffer (take 32 rest),
          header_nonce = ArrayBuffer (take 24 (drop 32 rest)), header_offset = 62\<rparr>"
  "parseHeader (Uint8Array (TextEncoder_encode VAULT_MAGIC @ v # rest)) =
     Inr \<lparr>header_version = Some v, header_salt = Uint8Array (take 32 rest),
          header_nonce = Uint8Array (take 24 (drop 32 rest)), header_offset = 62\<rparr>"
  by (simp_all add: parseHeader_def magic_bytes TextDecoder_decode_iff Let_def)

lemma deriveMasterKey_run:
  assumes "salt < next_ref w"
  shows "\<exists>w'. deriveMasterKey C password salt w =
            (if fst (argon2id_hash_raw C 5 65536 4 (TextEncoder_encode password) (bufs w salt) 32) \<noteq> 0
             then Inl DerivationError else Inr (Suc (next_ref w)), w')
          \<and> bufs w' (Suc (next_ref w)) =
              (if fst (argon2id_hash_raw C 5 65536 4 (TextEncoder_encode password) (bufs w salt) 32) \<noteq> 0
               then bufs w (Suc (next_ref w))
               else snd (argon2id_hash_raw C 5 65536 4 (TextEncoder_encode password) (bufs w salt) 32))
          \<and> (\<forall>r<next_ref w. bufs w' r = bufs w r)"
  using assms
  by (cases "argon2id_hash_raw C 5 65536 4 (TextEncoder_encode password) (bufs w salt) 32")
     (auto simp: deriveMasterKey_def alloc_def zeroize_def Let_def)

text \<open>The container: magic, version byte, the 32 bytes of the salt and the 24 of the nonce
  as the generator delivered them, then the ciphertext under that nonce.\<close>

lemma encryptFile_vault_Inr:
  assumes run: "encryptFile_vault C data password w = (Inr container, w1)"
  shows "fst (argon2id_hash_raw C 5 65536 4 (TextEncoder_encode password) (map (csprng w) [0..<32]) 32) = 0
       \<and> container = createHeader (map (csprng w) [0..<32]) (map (csprng w) [32..<56]) @
           subtle_encrypt C ''XChaCha20-Poly1305''
             (snd (argon2id_hash_raw C 5 65536 4 (TextEncoder_encode password) (map (csprng w) [0..<32]) 32))
             (map (csprng w) [32..<56]) data"
proof -
  let ?s = "next_ref w"
  obtain wa where ra: "randomBytes 32 w = (Inr ?s, wa)"
    and ba: "bufs wa = (bufs w)(?s := map (csprng w) [0..<32])"
    and na: "next_ref wa = Suc ?s" and ca: "csprng wa = (\<lambda>i. csprng w (i + 32))"
    using randomBytes_run[of 32 w] by auto
  obtain wb where rb: "randomBytes 24 wa = (Inr (Suc ?s), wb)"
    and bb: "bufs wb = (bufs wa)(Suc ?s := map (csprng wa) [0..<24])"
    and nb: "next_ref wb = Suc (Suc ?s)"
    using randomBytes_run[of 24 wa] na by auto
  have nonce: "map (csprng wa) [0..<24] = map (csprng w) [32..<56]"
    using map_shift[of "csprng w" 32 24] by (simp only: ca) simp
  have sb: "bufs wb ?s = map (csprng w) [0..<32]" by (simp add: bb ba)
  have nn: "bufs wb (Suc ?s) = map (csprng w) [32..<56]" by (simp add: bb nonce)
  let ?A = "argon2id_hash_raw C 5 65536 4 (TextEncoder_encode password) (map (csprng w) [0..<32]) 32"
  obtain wc where dm: "deriveMasterKey C password ?s wb =
            (if fst ?A \<noteq> 0 then Inl DerivationError else Inr (Suc (next_ref wb)), wc)"
    and kc: "bufs wc (Suc (next_ref wb)) = (if fst ?A \<noteq> 0 then bufs wb (Suc (next_ref wb)) else snd ?A)"
    and fc: "\<forall>r<next_ref wb. bufs wc r = bufs wb r"
    using deriveMasterKey_run[of ?s wb C password] nb sb by auto
  have ok: "fst ?A = 0"
    using run ra rb dm by (auto simp: encryptFile_vault_def split: if_splits)
  have "bufs wc ?s = map (csprng w) [0..<32]" "bufs wc (Suc ?s) = map (csprng w) [32..<56]"
    using fc nb sb nn by simp_all
  then show ?thesis
    using run ra rb dm ok kc nb
    by (auto simp: encryptFile_vault_def Let_def zeroize_def)
qed

text \<open>What \<open>encryptFile_vault\<close> writes, \<open>decryptFile_vault\<close> reads back with the same
  password.\<close>

lemma decryptFile_vault_encryptFile_vault:
  assumes aead: "aead_correct C"
    and run: "encryptFile_vault C data password w = (Inr container, w1)"
  shows "\<exists>w2. decryptFile_vault C (ArrayBuffer container) password w1 = (Inr data, w2)"
    and "\<exists>w2. decryptFile_vault C (Uint8Array container) password w1 = (Inr data, w2)"
proof -
  let ?salt = "map (csprng w) [0..<32]" and ?nonce = "map (csprng w) [32..<56]"
  let ?A = "argon2id_hash_raw C 5 65536 4 (TextEncoder_encode password) ?salt 32"
  let ?body = "subtle_encrypt C ''XChaCha20-Poly1305'' (snd ?A) ?nonce data"
  from encryptFile_vault_Inr[OF run]
  have ok: "fst ?A = 0" and c: "container = createHeader ?salt ?nonce @ ?body" by simp_all
  have pa: "parseHeader (ArrayBuffer container) =
           Inr \<lparr>header_version = None, header_salt = ArrayBuffer ?salt,
                header_nonce = ArrayBuffer ?nonce, header_offset = 62\<rparr>"
    unfolding c by (rule parseHeader_createHeader; simp)
  have pu: "parseHeader (Uint8Array container) =
           Inr \<lparr>header_version = Some HEADER_VERSION, header_salt = Uint8Array ?salt,
                header_nonce = Uint8Array ?nonce, header_offset = 62\<rparr>"
    unfolding c by (rule parseHeader_createHeader; simp)
  have dr: "drop 62 container = ?body"
    unfolding c by (rule parseHeader_createHeader; simp)
  obtain s wa where al: "alloc ?salt w1 = (s, wa)" and s: "s = next_ref w1"
    and sa: "bufs wa s = ?salt" and na: "s < next_ref wa"
    by (simp add: alloc_def)
  obtain wb where dm: "deriveMasterKey C password s wa = (Inr (Suc (next_ref wa)), wb)"
    and kb: "bufs wb (Suc (next_ref wa)) = snd ?A"
    using deriveMasterKey_run[OF na, of C password] ok sa by auto
  have d: "subtle_decrypt C ''XChaCha20-Poly1305'' (snd ?A) ?nonce ?body = Some data"
    using aead by (simp add: aead_correct_def)
  show "\<exists>w2. decryptFile_vault C (ArrayBuffer container) password w1 = (Inr data, w2)"
    using d by (simp add: decryptFile_vault_def pa dr al dm kb Let_def)
  show "\<exists>w2. decryptFile_vault C (Uint8Array container) password w1 = (Inr data, w2)"
    using d by (simp add: decryptFile_vault_def pu dr al dm kb Let_def)
qed

section \<open>The handlers and the instance\<close>

lemma handleEncrypt_Inr:
  assumes run: "handleEncrypt C password (Some f) a = (Inr (), a')"
    and pw: "password \<noteq> []" and fills: "argon2_fills C"
  shows "\<exists>recs salt k w1.
           encryptFile C f (JSString password) None (app_world a) = (Inr (recs, salt), w1)
         \<and> window_lastEncryptedFile a' = Some (recs, salt)
         \<and> app_world a' = zeroize salt w1
         \<and> bufs w1 salt = map (csprng (app_world a)) [0..<32]
         \<and> bufs (app_world a') salt = replicate 32 0"
proof -
  obtain res w1 where e: "encryptFile C f (JSString password) None (app_world a) = (res, w1)"
    by force
  from run pw e obtain recs salt where r: "res = Inr (recs, salt)"
    by (cases res) (auto simp: handleEncrypt_def)
  from encryptFile_Inr[OF e[unfolded r] fills]
  have s: "bufs w1 salt = map (csprng (app_world a)) [0..<32]" by blast
  have a': "a' = \<lparr>window_lastEncryptedFile = Some (recs, salt), app_world = zeroize salt w1\<rparr>"
    using run pw e r by (simp add: handleEncrypt_def)
  show ?thesis
    using e r s by (simp add: a' zeroize_def)
qed

lemma key_byte_replicate [simp]: "0 < n \<Longrightarrow> key_byte (replicate n x) = x"
  by (cases n) (simp_all add: key_byte_def)

lemma demo_fills: "argon2_fills demo"
  by (simp add: argon2_fills_def demo_def)

lemma demo_aead: "aead_correct demo"
  by (simp add: aead_correct_def demo_def comp_def xor.assoc)

lemma demo_key: "deriveKey_spec demo (loadable demo world3 None) (JSString ''pw'') (bufs world3 0) 128 3 1 32
    = Inr (replicate 32 193)"
  by (simp add: deriveKey_spec_def loadable_def kdf_def prehash_def demo_def world3_def
        TextEncoder_encode_def sum_list_replicate)

lemma sum_bytes_0_32: "sum_list (map of_nat [0..<32]) = (240 :: byte)"
  by code_simp

lemma demo_key0: "deriveKey_spec demo (loadable demo world0 None) (JSString ''pw'')
          (map (csprng world0) [0..<32]) 128 3 1 32 = Inr (replicate 32 209)"
  using sum_bytes_0_32
  by (simp add: deriveKey_spec_def loadable_def kdf_def prehash_def demo_def world0_def
        TextEncoder_encode_def sum_list_replicate)

lemma demo_key_zero_salt: "deriveKey_spec demo True (JSString ''pw'') (replicate 32 0) 128 3 1 32
     = Inr (replicate 32 225)"
  by (simp add: deriveKey_spec_def kdf_def prehash_def demo_def TextEncoder_encode_def
        sum_list_replicate)

lemma handleDecrypt_after_handleEncrypt:
  "\<exists>a'. handleEncrypt demo ''pw'' (Some [[1, 2], [3]]) app0 = (Inr (), a')
       \<and> fst (handleDecrypt demo ''pw'' a') = Inl AuthenticationError"
proof -
  obtain recs salt w1 where
    e: "encryptFile demo [[1, 2], [3]] (JSString ''pw'') None world0 = (Inr (recs, salt), w1)"
    using encryptFile_succeeds[OF demo_key0 demo_fills] by blast
  let ?w = "zeroize salt w1"
  let ?a = "\<lparr>window_lastEncryptedFile = Some (recs, salt), app_world = ?w\<rparr>"
  have h: "handleEncrypt demo ''pw'' (Some [[1, 2], [3]]) app0 = (Inr (), ?a)"
    using e by (simp add: handleEncrypt_def app0_def)
  from encryptFile_Inr[OF e demo_fills] demo_key0 obtain key where
    E: "bufs w1 salt = map (csprng world0) [0..<32]"
       "list_all2 (sealed demo (replicate 32 209) w1) recs [[1, 2], [3]]"
       "salt < key" "key < next_ref w1"
       "\<forall>r\<in>set recs. key < rec_nonce r \<and> key < rec_cipherChunk r"
       "argon2Instance w1"
    by auto
  from E(2) obtain r0 r1 where recs: "recs = [r0, r1]"
    and s0: "sealed demo (replicate 32 209) w1 r0 [1, 2]"
    by (auto simp: list_all2_Cons2)
  have sl: "salt < next_ref ?w" using E(3,4) by (simp add: zeroize_def)
  have zs: "bufs ?w salt = replicate 32 0" by (simp add: zeroize_def E(1))
  have sp: "deriveKey_spec demo (loadable demo ?w None) (JSString ''pw'') (bufs ?w salt) 128 3 1 32
              = Inr (replicate 32 225)"
    using demo_key_zero_salt E(6) by (simp add: zs loadable_def) (simp add: zeroize_def)
  have lv: "\<forall>r\<in>set ([] @ r0 # [r1]). live ?w r"
    using E(2) by (auto simp: recs sealed_def live_def zeroize_def)
  have ne: "rec_nonce r0 \<noteq> salt" "rec_cipherChunk r0 \<noteq> salt"
    using E(3,5) by (auto simp: recs)
  have bad: "opens demo (replicate 32 225) ?w r0 = None"
    using s0 ne by (simp add: opens_def sealed_def zeroize_def demo_def)
  from decryptFile_cut[OF sp demo_fills sl lv _ bad]
  have "fst (decryptFile demo recs (JSString ''pw'') salt ?w) = Inl AuthenticationError"
    by (auto simp: recs)
  then have "fst (handleDecrypt demo ''pw'' ?a) = Inl AuthenticationError"
    by (auto simp: handleDecrypt_def split: prod.splits sum.splits)
  with h show ?thesis by blast
qed

lemma demo_key5: "deriveKey_spec demo (loadable demo world5 None) (JSString ''pw'')
          (map (csprng world5) [0..<32]) 128 3 1 32 = Inr (replicate 32 1)"
  by (simp add: deriveKey_spec_def loadable_def kdf_def prehash_def demo_def world5_def
        TextEncoder_encode_def sum_list_replicate map_replicate_const)

lemma encryptFile_vault_demo:
  "\<exists>container w'. encryptFile_vault demo [1, 2, 3] ''pw'' world0 = (Inr container, w')"
  by (simp add: encryptFile_vault_def randomBytes_def alloc_def getRandomValues_def
        deriveMasterKey_def demo_def zeroize_def Let_def world0_def)

text \<open>A container that carries the version byte 2 is decrypted like any other.\<close>

lemma decryptFile_vault_other_version:
  "fst (decryptFile_vault demo
          (ArrayBuffer ([0x53, 0x56, 0x4C, 0x54, 0x31] @ [2] @ replicate 32 7 @ replicate 24 9
             @ [201, 202, 160])) ''pw'' world0) = Inr [1, 2]"
proof -
  let ?c = "[0x53, 0x56, 0x4C, 0x54, 0x31] @ [2] @ replicate 32 7 @ replicate 24 9 @ [201, 202, 160 :: byte]"
  have c: "?c = TextEncoder_encode VAULT_MAGIC @ 2 # (replicate 32 7 @ replicate 24 9 @ [201, 202, 160])"
    by (simp add: magic_bytes)
  have pa: "parseHeader (ArrayBuffer ?c)
     = Inr \<lparr>header_version = None, header_salt = ArrayBuffer (replicate 32 7),
             header_nonce = ArrayBuffer (replicate 24 9), header_offset = 62\<rparr>"
    unfolding c parseHeader_any_version by simp
  show ?thesis
    unfolding decryptFile_vault_def pa
    by (simp add: alloc_def deriveMasterKey_def demo_def zeroize_def Let_def world0_def
          TextEncoder_encode_def sum_list_replicate)
qed

section \<open>The claims\<close>

text \<open>
  Claim C1. Decrypting the result of encrypting a file under a password with the same
  password returns the file: whenever \<^verbatim>\<open>encryptFile\<close> returns, \<^verbatim>\<open>decryptFile\<close> on its chunk
  records, the same password and its salt returns chunks that are the chunks read, so that
  their concatenation is the file byte for byte. The cipher is taken to open what it sealed
  and the native Argon2 to write as many bytes as it is asked for.
\<close>

theorem encrypt_decrypt_roundtrip:
  assumes "aead_correct C" "argon2_fills C"
    and "encryptFile C file password chunkSize w = (Inr (encryptedChunks, salt), w1)"
  shows "\<exists>decryptedChunks w2.
           decryptFile C encryptedChunks password salt w1 = (Inr decryptedChunks, w2)
         \<and> map (bufs w2) decryptedChunks = file
         \<and> concat (map (bufs w2) decryptedChunks) = concat file"
proof -
  from encryptFile_Inr[OF assms(3,2)] obtain k key where
    E: "deriveKey_spec C (loadable C w None) password (map (csprng w) [0..<32]) 128 3 1 32 = Inr k"
       "bufs w1 salt = map (csprng w) [0..<32]"
       "list_all2 (sealed C k w1) encryptedChunks file"
       "salt < key" "key < next_ref w1" "argon2Instance w1"
    by blast
  from deriveKey_spec_Inr[OF E(1)] E(6)
  have sp: "deriveKey_spec C (loadable C w1 None) password (bufs w1 salt) 128 3 1 32 = Inr k"
    by (auto simp: deriveKey_spec_def loadable_def E(2))
  have sl: "salt < next_ref w1" using E(4,5) by simp
  have op: "list_all2 (\<lambda>r c. live w1 r \<and> opens C k w1 r = Some c) encryptedChunks file"
  proof (rule list_all2_mono[OF E(3)])
    fix r c assume "sealed C k w1 r c"
    then show "live w1 r \<and> opens C k w1 r = Some c"
      using assms(1) by (simp add: sealed_def live_def opens_def aead_correct_def)
  qed
  from decryptFile_run[OF sp assms(2) sl op] show ?thesis by auto
qed

text \<open>The theorem on a file of three bytes read in two chunks: encryption returns, and
  decryption gives the three bytes back.\<close>

theorem encrypt_decrypt_roundtrip_witness:
  "\<exists>encryptedChunks salt w1 decryptedChunks w2.
      encryptFile demo [[1, 2], [3]] (JSString ''correct-horse'') None world0
         = (Inr (encryptedChunks, salt), w1)
    \<and> decryptFile demo encryptedChunks (JSString ''correct-horse'') salt w1
         = (Inr decryptedChunks, w2)
    \<and> concat (map (bufs w2) decryptedChunks) = [1, 2, 3]"
proof -
  have "\<exists>k. deriveKey_spec demo (loadable demo world0 None) (JSString ''correct-horse'')
          (map (csprng world0) [0..<32]) 128 3 1 32 = Inr k"
    by (simp add: deriveKey_spec_def loadable_def kdf_def demo_def)
  then obtain recs salt w1 where
    run: "encryptFile demo [[1, 2], [3]] (JSString ''correct-horse'') None world0
            = (Inr (recs, salt), w1)"
    using encryptFile_succeeds[OF _ demo_fills] by blast
  from encrypt_decrypt_roundtrip[OF demo_aead demo_fills run] run show ?thesis
    by auto
qed

text \<open>
  Claim C2. \<^verbatim>\<open>deriveKey\<close> is deterministic: two runs with the same arguments, in any two
  worlds that hold the same bytes in the salt buffer (and in which the Argon2 module can be
  had alike), give the caller the same result, the same error or keys that are equal byte
  for byte; a key has the length asked for, 32 bytes by default. The native function is
  taken to write as many bytes as it is asked for.
\<close>

theorem deriveKey_deterministic:
  assumes "argon2_fills C"
    and "arg_salt args = Some s" "s < next_ref w1" "s < next_ref w2" "bufs w1 s = bufs w2 s"
    and "loadable C w1 (arg_wasmPath args) = loadable C w2 (arg_wasmPath args)"
  shows "derived_key (deriveKey C args w1) = derived_key (deriveKey C args w2)
       \<and> (\<forall>key. derived_key (deriveKey C args w1) = Inr key
                 \<longrightarrow> length key = default 32 (arg_outputLength args))"
proof -
  have l1: "\<forall>r. arg_salt args = Some r \<longrightarrow> r < next_ref w1"
    and l2: "\<forall>r. arg_salt args = Some r \<longrightarrow> r < next_ref w2"
    using assms by auto
  have s: "salt_used args w1 = salt_used args w2"
    using assms by (simp add: salt_used_def)
  have eq: "derived_key (deriveKey C args w1) = derived_key (deriveKey C args w2)"
    using deriveKey_refines[OF assms(1) l1] deriveKey_refines[OF assms(1) l2] s assms(6) by simp
  have "length key = default 32 (arg_outputLength args)"
    if "derived_key (deriveKey C args w1) = Inr key" for key
    using that deriveKey_refines[OF assms(1) l1] argon2_fills_kdf[OF assms(1)]
    by (auto simp: deriveKey_spec_def split: js_value.splits if_splits prod.splits)
  with eq show ?thesis by blast
qed

text \<open>The theorem on two worlds that differ in their buffers, generator and module memory:
  both runs return the same key of 32 bytes.\<close>

theorem deriveKey_deterministic_witness:
  "derived_key (deriveKey demo args1 world1) = derived_key (deriveKey demo args1 world2)
   \<and> (\<exists>key. derived_key (deriveKey demo args1 world1) = Inr key \<and> length key = 32)"
proof -
  have a: "arg_salt args1 = Some 0" "0 < next_ref world1" "0 < next_ref world2"
    "bufs world1 0 = bufs world2 0"
    "loadable demo world1 (arg_wasmPath args1) = loadable demo world2 (arg_wasmPath args1)"
    by (simp_all add: args1_def world1_def world2_def loadable_def)
  have l1: "\<forall>r. arg_salt args1 = Some r \<longrightarrow> r < next_ref world1"
    by (simp add: args1_def world1_def)
  have "\<exists>key. derived_key (deriveKey demo args1 world1) = Inr key"
    unfolding deriveKey_refines[OF demo_fills l1]
    by (simp add: deriveKey_spec_def args1_def kdf_def demo_def salt_used_def world1_def loadable_def)
  with deriveKey_deterministic[OF demo_fills a] show ?thesis
    by (auto simp: args1_def)
qed

text \<open>
  Claim C3. Decryption is fail-closed. When the key is derived and a chunk record does not
  authenticate under it, \<^verbatim>\<open>decryptFile\<close> fails with an AuthenticationError, so that no chunk
  reaches the caller, also not those of the records before it that did authenticate; and it
  stops at the first such record: the records after it have no part in the outcome, which
  is that of the call on the list cut off behind the failing record.
\<close>

theorem decryptFile_fail_closed:
  assumes "argon2_fills C"
    and "deriveKey_spec C (loadable C w None) password (bufs w salt) 128 3 1 32 = Inr k"
    and "salt < next_ref w"
    and "\<forall>r\<in>set (pre @ bad # post). live w r"
    and "\<forall>r\<in>set pre. opens C k w r \<noteq> None"
    and "opens C k w bad = None"
  shows "fst (decryptFile C (pre @ bad # post) password salt w) = Inl AuthenticationError
       \<and> decryptFile C (pre @ bad # post) password salt w
           = decryptFile C (pre @ [bad]) password salt w"
  using decryptFile_cut[OF assms(2,1,3,4,5,6)] by auto

text \<open>The theorem on three records of which the second does not authenticate.\<close>

theorem decryptFile_fail_closed_witness:
  "fst (decryptFile demo [good_record, bad_record, good_record] (JSString ''pw'') 0 world3)
      = Inl AuthenticationError
   \<and> decryptFile demo [good_record, bad_record, good_record] (JSString ''pw'') 0 world3
      = decryptFile demo [good_record, bad_record] (JSString ''pw'') 0 world3"
proof -
  have s: "0 < next_ref world3" by (simp add: world3_def)
  have lv: "\<forall>r\<in>set ([good_record] @ bad_record # [good_record]). live world3 r"
    by (simp add: live_def world3_def good_record_def bad_record_def)
  have ok: "\<forall>r\<in>set [good_record]. opens demo (replicate 32 193) world3 r \<noteq> None"
    by (simp add: opens_def demo_def world3_def good_record_def)
  have bad: "opens demo (replicate 32 193) world3 bad_record = None"
    by (simp add: opens_def demo_def world3_def bad_record_def)
  show ?thesis
    using decryptFile_fail_closed[OF demo_fills demo_key s lv ok bad]
    unfolding append_Cons append_Nil .
qed

text \<open>
  Claim C4, at inputs where the code departs from it. \<^verbatim>\<open>deriveKey\<close> with a salt the native
  function rejects fails with a DerivationError and leaves the password bytes (buffer 1),
  the pre-hardened bytes (buffer 2) and their copy in the memory of the Argon2 module as
  they were; \<^verbatim>\<open>decryptFile\<close> on a record that does not authenticate fails with an
  AuthenticationError and leaves the derived file key (buffer 6) as it was.
\<close>

theorem key_material_survives_errors:
  "fst (deriveKey demo args1 world4) = Inl DerivationError
   \<and> bufs (snd (deriveKey demo args1 world4)) 1 = [112, 119]
   \<and> bufs (snd (deriveKey demo args1 world4)) 2 = replicate 32 241
   \<and> HEAPU8_slice 0 32 (snd (deriveKey demo args1 world4)) = replicate 32 241
   \<and> fst (decryptFile demo [bad_record] (JSString ''pw'') 0 world3) = Inl AuthenticationError
   \<and> bufs (snd (decryptFile demo [bad_record] (JSString ''pw'') 0 world3)) 6 = replicate 32 193"
proof -
  have H: "prehash demo ''pw'' (bufs world4 0) = replicate 32 241"
    by (simp add: prehash_def demo_def world4_def TextEncoder_encode_def)
  have k: "argon2id_hash_raw demo 3 (64 * 1024) 1 (replicate 32 241) (bufs world4 0) 32 = (- 6, [])"
    by (simp add: demo_def world4_def)
  have l: "argon2Instance world4 \<or> fetch_ok demo (default ''./argon2.wasm'' None)"
    by (simp add: demo_def)
  from deriveKey_body_argon2_fails[OF _ _ l H refl k]
  obtain w' where
    run: "deriveKey_body demo (JSString ''pw'') 0 64 3 1 32 None world4 = (Inl DerivationError, w')"
    and b: "bufs w' = (bufs world4)(next_ref world4 := TextEncoder_encode ''pw'',
                                    Suc (next_ref world4) := replicate 32 241)"
    and h: "HEAPU8 w' = HEAPU8 (HEAPU8_set [] (heap_brk world4 + length (replicate 32 (241::byte)) + length (bufs world4 0))
                     (HEAPU8_set (bufs world4 0) (heap_brk world4 + length (replicate 32 (241::byte)))
                        (HEAPU8_set (replicate 32 241) (heap_brk world4) world4)))"
    by (auto simp: world4_def)
  have d: "deriveKey demo args1 world4 = (Inl DerivationError, w')"
    using run by (simp add: deriveKey_unfold args1_def)
  have hs: "HEAPU8_slice 0 32 w' = replicate 32 241"
    by (simp add: HEAPU8_slice_def h HEAPU8_set_at world4_def list_eq_iff_nth_eq)
  have s: "0 < next_ref world3" by (simp add: world3_def)
  have bad: "opens demo (replicate 32 193) world3 bad_record = None"
    by (simp add: opens_def demo_def world3_def bad_record_def)
  have lv: "\<forall>r\<in>set ([] @ bad_record # []). live world3 r"
    by (simp add: live_def world3_def bad_record_def)
  from decryptFile_cut[OF demo_key demo_fills s lv _ bad]
  have e: "fst (decryptFile demo [bad_record] (JSString ''pw'') 0 world3) = Inl AuthenticationError"
    by auto
  from decryptFile_error_keeps_key[OF demo_key demo_fills s e]
  have kk: "bufs (snd (decryptFile demo [bad_record] (JSString ''pw'') 0 world3)) 6 = replicate 32 193"
    by (simp add: world3_def eval_nat_numeral)
  show ?thesis
    using d b hs e kk by (simp add: world4_def TextEncoder_encode_def)
qed

text \<open>
  Claim C5, at an input where the code departs from it. A container with the marker and the
  version byte 2, while the supported version is 1 and \<^verbatim>\<open>createHeader\<close> writes it as the
  sixth byte: \<^verbatim>\<open>parseHeader\<close> fails with no FormatError and returns the header, with a
  \<^verbatim>\<open>version\<close> that is \<^verbatim>\<open>undefined\<close> when the container is an \<^verbatim>\<open>ArrayBuffer\<close> and 2 when it is
  a \<^verbatim>\<open>Uint8Array\<close>. The version byte is compared nowhere (lemma \<open>parseHeader_any_version\<close>).
\<close>

theorem parseHeader_never_compares_version:
  "parseHeader (ArrayBuffer ([0x53, 0x56, 0x4C, 0x54, 0x31] @ [2] @ replicate 32 7 @ replicate 24 9
                  @ [201, 202, 160]))
     = Inr \<lparr>header_version = None, header_salt = ArrayBuffer (replicate 32 7),
             header_nonce = ArrayBuffer (replicate 24 9), header_offset = 62\<rparr>
   \<and> parseHeader (Uint8Array ([0x53, 0x56, 0x4C, 0x54, 0x31] @ [2] @ replicate 32 7 @ replicate 24 9
                  @ [201, 202, 160]))
     = Inr \<lparr>header_version = Some 2, header_salt = Uint8Array (replicate 32 7),
             header_nonce = Uint8Array (replicate 24 9), header_offset = 62\<rparr>
   \<and> HEADER_VERSION = 1
   \<and> createHeader (replicate 32 7) (replicate 24 9) ! 5 = HEADER_VERSION"
proof -
  let ?c = "[0x53, 0x56, 0x4C, 0x54, 0x31] @ [2] @ replicate 32 7 @ replicate 24 9 @ [201, 202, 160 :: byte]"
  have c: "?c = TextEncoder_encode VAULT_MAGIC @ 2 # (replicate 32 7 @ replicate 24 9 @ [201, 202, 160])"
    by (simp add: magic_bytes)
  have pa: "parseHeader (ArrayBuffer ?c)
     = Inr \<lparr>header_version = None, header_salt = ArrayBuffer (replicate 32 7),
             header_nonce = ArrayBuffer (replicate 24 9), header_offset = 62\<rparr>"
    unfolding c parseHeader_any_version by simp
  have pu: "parseHeader (Uint8Array ?c)
     = Inr \<lparr>header_version = Some 2, header_salt = Uint8Array (replicate 32 7),
             header_nonce = Uint8Array (replicate 24 9), header_offset = 62\<rparr>"
    unfolding c parseHeader_any_version by simp
  have v: "createHeader (replicate 32 7) (replicate 24 9) ! 5 = HEADER_VERSION"
    by (simp add: createHeader_def magic_bytes)
  show ?thesis
    using pa pu v by (simp add: HEADER_VERSION_def)
qed

text \<open>
  Claim C6, at inputs where the code departs from it. In the first \<^verbatim>\<open>app.js\<close> every key is
  derived with the fixed salt \<^verbatim>\<open>sovereign-vault-salt\<close> (20 bytes), and what
  \<^verbatim>\<open>encryptArrayBuffer\<close> returns holds no salt. In the current \<^verbatim>\<open>app.js\<close>, \<^verbatim>\<open>handleEncrypt\<close>
  wipes the salt before it stores it in \<^verbatim>\<open>window.lastEncryptedFile\<close>: the key was derived
  from the 32 bytes drawn, and the salt kept for decryption reads 32 zero bytes.
\<close>

theorem salt_fixed_or_wiped:
  "deriveKeyFromPassword C password =
      subtle_deriveBits C ''SHA-256'' (TextEncoder_encode password)
        [115, 111, 118, 101, 114, 101, 105, 103, 110, 45, 118, 97, 117, 108, 116, 45, 115, 97, 108, 116]
        100000 256
   \<and> fst (fst (encryptArrayBuffer C data password w)) =
        subtle_encrypt C ''AES-GCM'' (deriveKeyFromPassword C password) (map (csprng w) [0..<12]) data
   \<and> (\<exists>recs salt a' w1.
         handleEncrypt demo ''pw'' (Some [[1, 2], [3]]) app0 = (Inr (), a')
       \<and> encryptFile demo [[1, 2], [3]] (JSString ''pw'') None world0 = (Inr (recs, salt), w1)
       \<and> bufs w1 salt = map of_nat [0..<32]
       \<and> window_lastEncryptedFile a' = Some (recs, salt)
       \<and> bufs (app_world a') salt = replicate 32 0)"
proof -
  have "\<exists>k. deriveKey_spec demo (loadable demo world0 None) (JSString ''pw'')
          (map (csprng world0) [0..<32]) 128 3 1 32 = Inr k"
    by (simp add: deriveKey_spec_def loadable_def kdf_def demo_def)
  then obtain recs salt w1 where
    e: "encryptFile demo [[1, 2], [3]] (JSString ''pw'') None world0 = (Inr (recs, salt), w1)"
    using encryptFile_succeeds[OF _ demo_fills] by blast
  then have h: "handleEncrypt demo ''pw'' (Some [[1, 2], [3]]) app0 =
      (Inr (), \<lparr>window_lastEncryptedFile = Some (recs, salt), app_world = zeroize salt w1\<rparr>)"
    by (simp add: handleEncrypt_def app0_def)
  from handleEncrypt_Inr[OF h _ demo_fills] e
  have "bufs w1 salt = map of_nat [0..<32] \<and> bufs (zeroize salt w1) salt = replicate 32 0"
    by (auto simp: app0_def world0_def)
  with e h show ?thesis
    by (auto simp: deriveKeyFromPassword_def fixed_salt_bytes encryptArrayBuffer_run)
qed

text \<open>
  Claim C7, as the code has it. For every chunk \<^verbatim>\<open>encryptFile\<close> draws a nonce of 24 bytes of
  its own from the generator before the cipher runs, and the record of the chunk holds that
  nonce and the chunk sealed under it: the nonce of record \<open>i\<close> is the \<open>i\<close>-th block of 24
  bytes the generator delivers after the 32 bytes of the salt, and every record has a nonce
  buffer of its own. Nothing else keeps nonces apart: two records of a file key hold the
  same nonce exactly when the generator delivered the same 24 bytes for both. The
  \<^verbatim>\<open>encryptFile\<close> of the first crypto core encrypts the file as one chunk, under the 24
  bytes drawn after the salt, and stores them in the header.
\<close>

theorem encryptFile_nonce_per_chunk:
  "(argon2_fills C \<and> encryptFile C file password chunkSize w = (Inr (encryptedChunks, salt), w1)
      \<longrightarrow> (\<exists>k. length encryptedChunks = length file
            \<and> (\<forall>i<length file.
                  bufs w1 (rec_nonce (encryptedChunks ! i)) = nonce_block w 32 i
                \<and> length (bufs w1 (rec_nonce (encryptedChunks ! i))) = 24
                \<and> bufs w1 (rec_cipherChunk (encryptedChunks ! i)) =
                    subtle_encrypt C ''XChaCha20-Poly1305'' k
                      (bufs w1 (rec_nonce (encryptedChunks ! i))) (file ! i))
            \<and> distinct (map rec_nonce encryptedChunks)
            \<and> (\<forall>i<length file. \<forall>j<length file.
                  (bufs w1 (rec_nonce (encryptedChunks ! i)) = bufs w1 (rec_nonce (encryptedChunks ! j)))
                    = (nonce_block w 32 i = nonce_block w 32 j))))
   \<and> (encryptFile_vault C data pw w = (Inr container, w2)
      \<longrightarrow> (\<exists>k. container =
                  createHeader (map (csprng w) [0..<32]) (nonce_block w 32 0) @
                    subtle_encrypt C ''XChaCha20-Poly1305'' k (nonce_block w 32 0) data
            \<and> length (nonce_block w 32 0) = 24
            \<and> parseHeader (ArrayBuffer container) =
                Inr \<lparr>header_version = None,
                     header_salt = ArrayBuffer (map (csprng w) [0..<32]),
                     header_nonce = ArrayBuffer (nonce_block w 32 0), header_offset = 62\<rparr>))"
proof (intro conjI impI)
  assume a: "argon2_fills C \<and> encryptFile C file password chunkSize w = (Inr (encryptedChunks, salt), w1)"
  from encryptFile_Inr[OF conjunct2[OF a] conjunct1[OF a]] obtain k where
    s: "list_all2 (sealed C k w1) encryptedChunks file"
    and nb: "map (\<lambda>r. bufs w1 (rec_nonce r)) encryptedChunks
               = map (nonce_block w 32) [0..<length file]"
    and d: "distinct (map rec_nonce encryptedChunks)"
    by blast
  have len: "length encryptedChunks = length file"
    using s by (rule list_all2_lengthD)
  have n: "bufs w1 (rec_nonce (encryptedChunks ! i)) = nonce_block w 32 i" if "i < length file" for i
  proof -
    have "map (\<lambda>r. bufs w1 (rec_nonce r)) encryptedChunks ! i
            = map (nonce_block w 32) [0..<length file] ! i"
      by (simp only: nb)
    with that len show ?thesis by simp
  qed
  have c: "bufs w1 (rec_cipherChunk (encryptedChunks ! i)) =
             subtle_encrypt C ''XChaCha20-Poly1305'' k
               (bufs w1 (rec_nonce (encryptedChunks ! i))) (file ! i)" if "i < length file" for i
    using list_all2_nthD2[OF s that] by (simp add: sealed_def)
  show "\<exists>k. length encryptedChunks = length file
            \<and> (\<forall>i<length file.
                  bufs w1 (rec_nonce (encryptedChunks ! i)) = nonce_block w 32 i
                \<and> length (bufs w1 (rec_nonce (encryptedChunks ! i))) = 24
                \<and> bufs w1 (rec_cipherChunk (encryptedChunks ! i)) =
                    subtle_encrypt C ''XChaCha20-Poly1305'' k
                      (bufs w1 (rec_nonce (encryptedChunks ! i))) (file ! i))
            \<and> distinct (map rec_nonce encryptedChunks)
            \<and> (\<forall>i<length file. \<forall>j<length file.
                  (bufs w1 (rec_nonce (encryptedChunks ! i)) = bufs w1 (rec_nonce (encryptedChunks ! j)))
                    = (nonce_block w 32 i = nonce_block w 32 j))"
    using len n c d by (intro exI[of _ k]) simp
next
  assume run: "encryptFile_vault C data pw w = (Inr container, w2)"
  let ?A = "argon2id_hash_raw C 5 65536 4 (TextEncoder_encode pw) (map (csprng w) [0..<32]) 32"
  have nb: "nonce_block w 32 0 = map (csprng w) [32..<56]"
    using map_shift[of "csprng w" 32 24] by (simp add: nonce_block_def add.commute)
  from encryptFile_vault_Inr[OF run]
  have c: "container = createHeader (map (csprng w) [0..<32]) (nonce_block w 32 0) @
             subtle_encrypt C ''XChaCha20-Poly1305'' (snd ?A) (nonce_block w 32 0) data"
    unfolding nb by simp
  have p: "parseHeader (ArrayBuffer container) =
           Inr \<lparr>header_version = None, header_salt = ArrayBuffer (map (csprng w) [0..<32]),
                header_nonce = ArrayBuffer (nonce_block w 32 0), header_offset = 62\<rparr>"
    unfolding c by (rule parseHeader_createHeader; simp)
  show "\<exists>k. container =
                  createHeader (map (csprng w) [0..<32]) (nonce_block w 32 0) @
                    subtle_encrypt C ''XChaCha20-Poly1305'' k (nonce_block w 32 0) data
            \<and> length (nonce_block w 32 0) = 24
            \<and> parseHeader (ArrayBuffer container) =
                Inr \<lparr>header_version = None,
                     header_salt = ArrayBuffer (map (csprng w) [0..<32]),
                     header_nonce = ArrayBuffer (nonce_block w 32 0), header_offset = 62\<rparr>"
    using c p by (intro exI[of _ "snd ?A"]) simp
qed

text \<open>The theorem on a file read in two chunks and on a container of three bytes, with a
  generator that counts: the two records hold different nonces.\<close>

theorem encryptFile_nonce_per_chunk_witness:
  "\<exists>encryptedChunks salt w1 container w2.
      encryptFile demo [[1, 2], [3]] (JSString ''pw'') None world0 = (Inr (encryptedChunks, salt), w1)
    \<and> length encryptedChunks = 2
    \<and> length (bufs w1 (rec_nonce (encryptedChunks ! 0))) = 24
    \<and> length (bufs w1 (rec_nonce (encryptedChunks ! 1))) = 24
    \<and> bufs w1 (rec_nonce (encryptedChunks ! 0)) \<noteq> bufs w1 (rec_nonce (encryptedChunks ! 1))
    \<and> encryptFile_vault demo [1, 2, 3] ''pw'' world0 = (Inr container, w2)
    \<and> parseHeader (ArrayBuffer container) =
         Inr \<lparr>header_version = None, header_salt = ArrayBuffer (map of_nat [0..<32]),
              header_nonce = ArrayBuffer (map of_nat [32..<56]), header_offset = 62\<rparr>"
proof -
  obtain recs salt w1 where
    run: "encryptFile demo [[1, 2], [3]] (JSString ''pw'') None world0 = (Inr (recs, salt), w1)"
    using encryptFile_succeeds[OF demo_key0 demo_fills] by blast
  obtain container w2 where
    v: "encryptFile_vault demo [1, 2, 3] ''pw'' world0 = (Inr container, w2)"
    using encryptFile_vault_demo by blast
  have "nonce_block world0 32 0 ! 0 \<noteq> nonce_block world0 32 1 ! 0"
    by (simp add: nonce_block_def world0_def)
  then have ne: "nonce_block world0 32 0 \<noteq> nonce_block world0 32 1" by auto
  have nb: "nonce_block world0 32 0 = map of_nat [32..<56]"
    using map_shift[of "csprng world0" 32 24] by (simp add: nonce_block_def add.commute world0_def)
  have s0: "csprng world0 = of_nat" by (simp add: world0_def fun_eq_iff)
  from encryptFile_nonce_per_chunk[of demo "[[1, 2], [3]]" "JSString ''pw''" None world0 recs salt w1
         "[1, 2, 3]" "''pw''" container w2]
    demo_fills run v ne nb s0
  show ?thesis by auto
qed

text \<open>
  Against claim C7 as stated (no nonce is ever repeated under a file key): with a generator
  that delivers the same byte throughout, \<^verbatim>\<open>encryptFile\<close> on a file read in two chunks
  returns two records, sealed under the one file key, that hold the same nonce.
\<close>

theorem encryptFile_repeats_nonce:
  "\<not> isl (fst (encryptFile demo [[1], [2]] (JSString ''pw'') None world5))
   \<and> length (fst (projr (fst (encryptFile demo [[1], [2]] (JSString ''pw'') None world5)))) = 2
   \<and> bufs (snd (encryptFile demo [[1], [2]] (JSString ''pw'') None world5))
        (rec_nonce (fst (projr (fst (encryptFile demo [[1], [2]] (JSString ''pw'') None world5))) ! 0))
      = replicate 24 9
   \<and> bufs (snd (encryptFile demo [[1], [2]] (JSString ''pw'') None world5))
        (rec_nonce (fst (projr (fst (encryptFile demo [[1], [2]] (JSString ''pw'') None world5))) ! 1))
      = replicate 24 9
   \<and> bufs (snd (encryptFile demo [[1], [2]] (JSString ''pw'') None world5))
        (rec_cipherChunk (fst (projr (fst (encryptFile demo [[1], [2]] (JSString ''pw'') None world5))) ! 0))
      = subtle_encrypt demo ''XChaCha20-Poly1305'' (replicate 32 1) (replicate 24 9) [1]
   \<and> bufs (snd (encryptFile demo [[1], [2]] (JSString ''pw'') None world5))
        (rec_cipherChunk (fst (projr (fst (encryptFile demo [[1], [2]] (JSString ''pw'') None world5))) ! 1))
      = subtle_encrypt demo ''XChaCha20-Poly1305'' (replicate 32 1) (replicate 24 9) [2]"
proof -
  obtain recs salt w1 where
    run: "encryptFile demo [[1], [2]] (JSString ''pw'') None world5 = (Inr (recs, salt), w1)"
    using encryptFile_succeeds[OF demo_key5 demo_fills] by blast
  from encryptFile_Inr[OF run demo_fills] demo_key5 have
    s: "list_all2 (sealed demo (replicate 32 1) w1) recs [[1], [2]]"
    and nb: "map (\<lambda>r. bufs w1 (rec_nonce r)) recs = map (nonce_block world5 32) [0..<length [[1], [2 :: byte]]]"
    by auto
  from s obtain r0 r1 where recs: "recs = [r0, r1]"
    and s0: "sealed demo (replicate 32 1) w1 r0 [1]" and s1: "sealed demo (replicate 32 1) w1 r1 [2]"
    by (auto simp: list_all2_Cons2)
  have b: "nonce_block world5 32 i = replicate 24 9" for i
    by (simp add: nonce_block_def world5_def map_replicate_const)
  from nb have n: "bufs w1 (rec_nonce r0) = replicate 24 9" "bufs w1 (rec_nonce r1) = replicate 24 9"
    by (simp_all add: recs b numeral_2_eq_2)
  show ?thesis
    using s0 s1 n unfolding run recs by (simp add: sealed_def)
qed

text \<open>
  Claim C8, at an input where the code departs from it: \<^verbatim>\<open>encryptFile\<close> never looks at
  \<^verbatim>\<open>chunkSize\<close> (lemma \<open>encryptFile_chunkSize_irrelevant\<close>); a chunk is whatever the reader
  delivers. A file whose reader delivers its three bytes at once, encrypted with
  \<^verbatim>\<open>chunkSize = 2\<close>, gives one record that seals all three bytes.
\<close>

theorem encryptFile_chunkSize_unused:
  "\<exists>encryptedChunks salt w1 k.
      encryptFile demo [[1, 2, 3]] (JSString ''pw'') (Some 2) world0
         = (Inr (encryptedChunks, salt), w1)
    \<and> length encryptedChunks = 1
    \<and> bufs w1 (rec_cipherChunk (encryptedChunks ! 0)) =
         subtle_encrypt demo ''XChaCha20-Poly1305'' k
           (bufs w1 (rec_nonce (encryptedChunks ! 0))) [1, 2, 3]"
proof -
  have "\<exists>k. deriveKey_spec demo (loadable demo world0 None) (JSString ''pw'')
          (map (csprng world0) [0..<32]) 128 3 1 32 = Inr k"
    by (simp add: deriveKey_spec_def loadable_def kdf_def demo_def)
  then obtain recs salt w1 where
    run: "encryptFile demo [[1, 2, 3]] (JSString ''pw'') (Some 2) world0 = (Inr (recs, salt), w1)"
    using encryptFile_succeeds[OF _ demo_fills] by blast
  from encryptFile_Inr[OF run demo_fills] obtain k where
    s: "list_all2 (sealed demo k w1) recs [[1, 2, 3]]" by blast
  then obtain r where "recs = [r]" "sealed demo k w1 r [1, 2, 3]"
    by (auto simp: list_all2_Cons2)
  with run show ?thesis by (auto simp: sealed_def)
qed

text \<open>
  Claim C9, as the code has it. \<^verbatim>\<open>deriveKey\<close> fails with a ValidationError exactly when its
  password argument is not a string or is the empty string. That failure comes before any
  key material is derived: the world it leaves is the one the binding of the parameters
  left, which is the world before the call whenever a salt was passed. When no salt is
  passed, the default salt has been drawn by \<^verbatim>\<open>secureRandom(32)\<close> by then.
\<close>

theorem deriveKey_validation:
  "(fst (deriveKey C args w) = Inl ValidationError)
      = (\<not> (\<exists>pw. arg_password args = JSString pw \<and> pw \<noteq> []))
   \<and> ((\<not> (\<exists>pw. arg_password args = JSString pw \<and> pw \<noteq> []))
        \<longrightarrow> snd (deriveKey C args w) = snd (bind_salt (arg_salt args) w))
   \<and> ((\<not> (\<exists>pw. arg_password args = JSString pw \<and> pw \<noteq> [])) \<and> arg_salt args \<noteq> None
        \<longrightarrow> snd (deriveKey C args w) = w)"
proof (cases "\<exists>pw. arg_password args = JSString pw \<and> pw \<noteq> []")
  case True
  then show ?thesis
    using deriveKey_body_valid_error by (auto simp: deriveKey_unfold)
next
  case False
  then have "deriveKey C args w = (Inl ValidationError, snd (bind_salt (arg_salt args) w))"
    by (simp add: deriveKey_unfold deriveKey_body_invalid)
  with False show ?thesis by auto
qed

text \<open>The theorem at an empty password with a salt passed: the world is as before.\<close>

theorem deriveKey_validation_witness:
  "fst (deriveKey demo \<lparr>arg_password = JSString [], arg_salt = Some 0, arg_memoryMB = None,
          arg_iterations = None, arg_parallelism = None, arg_outputLength = None,
          arg_wasmPath = None\<rparr> world0) = Inl ValidationError
   \<and> snd (deriveKey demo \<lparr>arg_password = JSString [], arg_salt = Some 0, arg_memoryMB = None,
          arg_iterations = None, arg_parallelism = None, arg_outputLength = None,
          arg_wasmPath = None\<rparr> world0) = world0"
  using deriveKey_validation[of demo "\<lparr>arg_password = JSString [], arg_salt = Some 0,
          arg_memoryMB = None, arg_iterations = None, arg_parallelism = None,
          arg_outputLength = None, arg_wasmPath = None\<rparr>" world0]
  by simp

text \<open>
  Against claim C9 as stated (no cryptographic side effects): with the empty password and no
  salt, the call fails with a ValidationError after a buffer of 32 bytes has been created
  and filled from the generator, whose output has moved on by 32 bytes.
\<close>

theorem deriveKey_validation_draws_default_salt:
  "fst (deriveKey demo \<lparr>arg_password = JSString [], arg_salt = None, arg_memoryMB = None,
          arg_iterations = None, arg_parallelism = None, arg_outputLength = None,
          arg_wasmPath = None\<rparr> world0) = Inl ValidationError
   \<and> next_ref world0 = 0
   \<and> next_ref (snd (deriveKey demo \<lparr>arg_password = JSString [], arg_salt = None,
          arg_memoryMB = None, arg_iterations = None, arg_parallelism = None,
          arg_outputLength = None, arg_wasmPath = None\<rparr> world0)) = 1
   \<and> length (bufs (snd (deriveKey demo \<lparr>arg_password = JSString [], arg_salt = None,
          arg_memoryMB = None, arg_iterations = None, arg_parallelism = None,
          arg_outputLength = None, arg_wasmPath = None\<rparr> world0)) 0) = 32
   \<and> csprng world0 0 = 0
   \<and> csprng (snd (deriveKey demo \<lparr>arg_password = JSString [], arg_salt = None,
          arg_memoryMB = None, arg_iterations = None, arg_parallelism = None,
          arg_outputLength = None, arg_wasmPath = None\<rparr> world0)) 0 = 32"
  using bind_salt_None[of world0]
  by (auto simp: deriveKey_unfold deriveKey_body_invalid world0_def)

text \<open>
  Claim C10. \<^verbatim>\<open>deriveKey\<close> leaves the caller's salt buffer untouched: on every successful
  run the salt returned is the buffer passed in (or the one generated as the default), with
  the bytes it was derived from; it is not the key; no buffer that existed before the call
  is changed; and every block the call allocated in the memory of the Argon2 module, the
  copy of the salt among them, reads zero afterwards.
\<close>

theorem deriveKey_leaves_salt_untouched:
  assumes "deriveKey C args w = (Inr (k, s), w')"
    and "\<forall>r. arg_salt args = Some r \<longrightarrow> r < next_ref w"
  shows "s = (case arg_salt args of Some r \<Rightarrow> r | None \<Rightarrow> next_ref w)
       \<and> bufs w' s = salt_used args w
       \<and> k \<noteq> s
       \<and> (\<forall>r<next_ref w. bufs w' r = bufs w r)
       \<and> (\<forall>a. heap_brk w \<le> a \<and> a < heap_brk w' \<longrightarrow> HEAPU8 w' a = 0)
       \<and> heap_brk w + length (salt_used args w) \<le> heap_brk w'"
  using deriveKey_Inr[OF assms] by auto

text \<open>The theorem on a run that generates the default salt.\<close>

theorem deriveKey_leaves_salt_untouched_witness:
  "\<exists>k s w'. deriveKey demo args0 world0 = (Inr (k, s), w')
     \<and> s = 0 \<and> bufs w' s = map of_nat [0..<32] \<and> k \<noteq> s
     \<and> (\<forall>a. a < heap_brk w' \<longrightarrow> HEAPU8 w' a = 0)"
proof -
  have "\<exists>k s w'. deriveKey demo args0 world0 = (Inr (k, s), w')"
    by (rule deriveKey_succeeds[where pw = "''pw''"])
       (simp_all add: args0_def kdf_def demo_def salt_used_def world0_def)
  then obtain k s w' where run: "deriveKey demo args0 world0 = (Inr (k, s), w')" by blast
  have live: "\<forall>r. arg_salt args0 = Some r \<longrightarrow> r < next_ref world0"
    by (simp add: args0_def)
  from deriveKey_leaves_salt_untouched[OF run live] run show ?thesis
    by (auto simp: args0_def salt_used_def world0_def)
qed

end
